theory Spec2Isabelle
  imports Complex_Main "HOL-Library.Word"
begin

unbundle bit_operations_syntax

section \<open>Double-precision values\<close>

text \<open>
  The kernels of \<^verbatim>\<open>pgm_common.h\<close> compute on C \<^verbatim>\<open>double\<close>s. A double is modelled
  as a finite real number or one of the three special values of IEEE 754. Arithmetic on
  finite values is the exact arithmetic of the reals: rounding, overflow to infinity and
  underflow are not modelled, and a decimal literal of the source stands for the decimal
  number it writes. The special values follow IEEE 754: a division by zero gives an
  infinity or, for \<open>0 / 0\<close>, a NaN; every comparison with a NaN is false. Zero carries no
  sign: a nonzero value divided by zero takes the sign of the numerator, as for \<open>+0.0\<close>.
\<close>

datatype double = Fin real | PInf | NInf | NaN

instantiation double :: "{plus,minus,uminus,times,inverse,ord}"
begin

fun uminus_double :: "double \<Rightarrow> double" where
  "uminus_double (Fin x) = Fin (- x)"
| "uminus_double PInf = NInf"
| "uminus_double NInf = PInf"
| "uminus_double NaN = NaN"

fun plus_double :: "double \<Rightarrow> double \<Rightarrow> double" where
  "plus_double (Fin x) (Fin y) = Fin (x + y)"
| "plus_double NaN _ = NaN"
| "plus_double _ NaN = NaN"
| "plus_double PInf NInf = NaN"
| "plus_double NInf PInf = NaN"
| "plus_double PInf _ = PInf"
| "plus_double _ PInf = PInf"
| "plus_double NInf _ = NInf"
| "plus_double _ NInf = NInf"

definition minus_double :: "double \<Rightarrow> double \<Rightarrow> double" where
  "minus_double x y = x + (- y)"

fun times_double :: "double \<Rightarrow> double \<Rightarrow> double" where
  "times_double (Fin x) (Fin y) = Fin (x * y)"
| "times_double NaN _ = NaN"
| "times_double _ NaN = NaN"
| "times_double (Fin x) PInf = (if x = 0 then NaN else if 0 < x then PInf else NInf)"
| "times_double (Fin x) NInf = (if x = 0 then NaN else if 0 < x then NInf else PInf)"
| "times_double PInf (Fin y) = (if y = 0 then NaN else if 0 < y then PInf else NInf)"
| "times_double NInf (Fin y) = (if y = 0 then NaN else if 0 < y then NInf else PInf)"
| "times_double PInf PInf = PInf"
| "times_double PInf NInf = NInf"
| "times_double NInf PInf = NInf"
| "times_double NInf NInf = PInf"

fun divide_double :: "double \<Rightarrow> double \<Rightarrow> double" where
  "divide_double (Fin x) (Fin y) =
     (if y = 0 then (if x = 0 then NaN else if 0 < x then PInf else NInf) else Fin (x / y))"
| "divide_double NaN _ = NaN"
| "divide_double _ NaN = NaN"
| "divide_double (Fin x) PInf = Fin 0"
| "divide_double (Fin x) NInf = Fin 0"
| "divide_double PInf (Fin y) = (if 0 \<le> y then PInf else NInf)"
| "divide_double NInf (Fin y) = (if 0 \<le> y then NInf else PInf)"
| "divide_double PInf PInf = NaN"
| "divide_double PInf NInf = NaN"
| "divide_double NInf PInf = NaN"
| "divide_double NInf NInf = NaN"

fun inverse_double :: "double \<Rightarrow> double" where
  "inverse_double (Fin x) = (if x = 0 then PInf else Fin (1 / x))"
| "inverse_double PInf = Fin 0"
| "inverse_double NInf = Fin 0"
| "inverse_double NaN = NaN"

fun less_double :: "double \<Rightarrow> double \<Rightarrow> bool" where
  "less_double (Fin x) (Fin y) = (x < y)"
| "less_double NaN _ = False"
| "less_double _ NaN = False"
| "less_double _ NInf = False"
| "less_double NInf _ = True"
| "less_double PInf _ = False"
| "less_double _ PInf = True"

fun less_eq_double :: "double \<Rightarrow> double \<Rightarrow> bool" where
  "less_eq_double (Fin x) (Fin y) = (x \<le> y)"
| "less_eq_double NaN _ = False"
| "less_eq_double _ NaN = False"
| "less_eq_double NInf _ = True"
| "less_eq_double _ PInf = True"
| "less_eq_double _ NInf = False"
| "less_eq_double PInf _ = False"

instance ..

end

text \<open>C's \<^verbatim>\<open>==\<close> on doubles: a NaN equals nothing, itself included.\<close>

fun feq :: "double \<Rightarrow> double \<Rightarrow> bool" where
  "feq (Fin x) (Fin y) = (x = y)"
| "feq PInf PInf = True"
| "feq NInf NInf = True"
| "feq _ _ = False"

text \<open>
  The functions of \<^verbatim>\<open><math.h>\<close> the kernels call, exact on finite arguments and with
  the special cases of the C standard (Annex F) at and beyond the edge of their domains.
\<close>

fun c_exp :: "double \<Rightarrow> double" where
  "c_exp (Fin x) = Fin (exp x)"
| "c_exp PInf = PInf"
| "c_exp NInf = Fin 0"
| "c_exp NaN = NaN"

fun c_log :: "double \<Rightarrow> double" where
  "c_log (Fin x) = (if 0 < x then Fin (ln x) else if x = 0 then NInf else NaN)"
| "c_log PInf = PInf"
| "c_log NInf = NaN"
| "c_log NaN = NaN"

fun c_log1p :: "double \<Rightarrow> double" where
  "c_log1p (Fin x) = (if - 1 < x then Fin (ln (1 + x)) else if x = - 1 then NInf else NaN)"
| "c_log1p PInf = PInf"
| "c_log1p NInf = NaN"
| "c_log1p NaN = NaN"

fun c_sqrt :: "double \<Rightarrow> double" where
  "c_sqrt (Fin x) = (if 0 \<le> x then Fin (sqrt x) else NaN)"
| "c_sqrt PInf = PInf"
| "c_sqrt NInf = NaN"
| "c_sqrt NaN = NaN"

fun c_fabs :: "double \<Rightarrow> double" where
  "c_fabs (Fin x) = Fin \<bar>x\<bar>"
| "c_fabs PInf = PInf"
| "c_fabs NInf = PInf"
| "c_fabs NaN = NaN"

subsection \<open>size_t and its conversions\<close>

text \<open>
  \<^verbatim>\<open>size_t\<close> is the 64-bit unsigned integer of the platforms the library builds on.
  The cast \<^verbatim>\<open>(size_t)z\<close> truncates toward zero; C leaves it undefined when the
  truncated value is not a \<^verbatim>\<open>size_t\<close> (negative, too large, infinite or NaN), which the
  model reports as a fault. An array read outside the array is the other fault.
\<close>

type_synonym size_t = "64 word"

datatype fault = ConversionOutOfRange | IndexOutOfBounds

fun size_t_of_double :: "double \<Rightarrow> fault + size_t" where
  "size_t_of_double (Fin x) =
     (if - 1 < x \<and> x < 2 ^ 64 then Inr (word_of_nat (nat \<lfloor>x\<rfloor>)) else Inl ConversionOutOfRange)"
| "size_t_of_double _ = Inl ConversionOutOfRange"

definition double_of_size_t :: "size_t \<Rightarrow> double" where
  "double_of_size_t n = Fin (real (unat n))"

subsection \<open>Constants\<close>

text \<open>
  \<^verbatim>\<open>DBL_EPSILON\<close> and \<^verbatim>\<open>DBL_MIN\<close> come from \<^verbatim>\<open><float.h>\<close>; for IEEE 754 doubles
  they are 2 to the power -52 and 2 to the power -1022.
\<close>

definition DBL_EPSILON :: real where
  "DBL_EPSILON = 1 / 2 ^ 52"

definition DBL_MIN :: real where
  "DBL_MIN = 1 / 2 ^ 1022"

definition PGM_LS2PI :: real where
  "PGM_LS2PI = 0.9189385332046727"

definition PGM_MAX_EXP :: real where
  "PGM_MAX_EXP = 708.3964202663686"

definition PGM_1_SQRTPI :: real where
  "PGM_1_SQRTPI = 0.5641895835477563"

definition PGM_BIG_VAL :: real where
  "PGM_BIG_VAL = 26.615717509251258"

definition PGM_SMALL_VAL :: real where
  "PGM_SMALL_VAL = - 6.003636680306125"

definition PGM_CONFLUENT_EPSILON :: real where
  "PGM_CONFLUENT_EPSILON = 1 / 10 ^ 7"

section \<open>The complementary error function\<close>

text \<open>\<^verbatim>\<open>pgm_erfc\<close>, branch by branch; the reflection branch is the function's one recursive call.\<close>

function pgm_erfc :: "double \<Rightarrow> double" where
  "pgm_erfc x =
    (if x < Fin PGM_SMALL_VAL then Fin 2
     else if x < Fin (- DBL_EPSILON) then Fin 2 - pgm_erfc (- x)
     else if x < Fin DBL_EPSILON then Fin 1
     else if x < Fin 0.5 then
       (let p0 = Fin 3209.37758913846947;
            p1 = Fin 377.485237685302021;
            p2 = Fin 113.864154151050156;
            p3 = Fin 3.16112374387056560;
            p4 = Fin 0.185777706184603153;
            q0 = Fin 2844.23683343917062;
            q1 = Fin 1282.61652607737228;
            q2 = Fin 244.024637934444173;
            q3 = Fin 23.6012909523441209;
            z = x * x
        in Fin 1 - x * ((((p4 * z + p3) * z + p2) * z + p1) * z + p0) /
                       ((((z + q3) * z + q2) * z + q1) * z + q0))
     else if x < Fin 4 then
       (let p0 = Fin 7.3738883116;
            p1 = Fin 6.8650184849;
            p2 = Fin 3.0317993362;
            p3 = Fin 0.56316961891;
            p4 = Fin 0.000043187787405;
            q0 = Fin 7.3739608908;
            q1 = Fin 15.184908190;
            q2 = Fin 12.795529509;
            q3 = Fin 5.3542167949
        in c_exp (- x * x) * ((((p4 * x + p3) * x + p2) * x + p1) * x + p0) /
                             ((((x + q3) * x + q2) * x + q1) * x + q0))
     else if x < Fin PGM_BIG_VAL then
       (let z = x * x;
            y = c_exp (- z)
        in if x * Fin DBL_MIN > y * Fin PGM_1_SQRTPI then Fin 0
           else
             (let p0 = Fin (- 0.0425799643553);
                  p1 = Fin (- 0.196068973726);
                  p2 = Fin (- 0.0516882262185);
                  q0 = Fin 0.150942070545;
                  q1 = Fin 0.921452411694;
                  z = Fin 1 / z;
                  z = z * (((p2 * z + p1) * z + p0) / ((z + q1) * z + q0))
              in y * (Fin PGM_1_SQRTPI + z) / x))
     else Fin 0)"
  by pat_completeness auto
termination
proof (relation "measure (\<lambda>x. if x < Fin (- DBL_EPSILON) then 1 else 0)")
  show "wf (measure (\<lambda>x. if x < Fin (- DBL_EPSILON) then 1 else (0::nat)))"
    by simp
next
  fix x :: double
  assume "\<not> x < Fin PGM_SMALL_VAL" and lt: "x < Fin (- DBL_EPSILON)"
  have "\<not> - x < Fin (- DBL_EPSILON)"
    using lt by (cases x) (auto simp: DBL_EPSILON_def)
  with lt show "(- x, x) \<in> measure (\<lambda>x. if x < Fin (- DBL_EPSILON) then 1 else (0::nat))"
    by simp
qed

text \<open>The equation unfolds into itself, so it is applied by hand.\<close>

declare pgm_erfc.simps [simp del]

section \<open>The logarithm of the gamma function\<close>

text \<open>The table \<^verbatim>\<open>logfactorial[200]\<close> of \<^verbatim>\<open>pgm_lgamma\<close>, entry by entry.\<close>

definition logfactorial :: "real list" where
  "logfactorial = [
   0.000000000000000, 0.0000000000000000, 0.69314718055994529, 1.791759469228055,
   3.1780538303479458, 4.7874917427820458, 6.5792512120101012, 8.5251613610654147,
   10.604602902745251, 12.801827480081469, 15.104412573075516, 17.502307845873887,
   19.987214495661885, 22.552163853123425, 25.19122118273868, 27.89927138384089,
   30.671860106080672, 33.505073450136891, 36.395445208033053, 39.339884187199495,
   42.335616460753485, 45.380138898476908, 48.471181351835227, 51.606675567764377,
   54.784729398112319, 58.003605222980518, 61.261701761002001, 64.557538627006338,
   67.88974313718154, 71.257038967168015, 74.658236348830158, 78.092223553315307,
   81.557959456115043, 85.054467017581516, 88.580827542197682, 92.136175603687093,
   95.719694542143202, 99.330612454787428, 102.96819861451381, 106.63176026064346,
   110.32063971475739, 114.03421178146171, 117.77188139974507, 121.53308151543864,
   125.3172711493569, 129.12393363912722, 132.95257503561632, 136.80272263732635,
   140.67392364823425, 144.5657439463449, 148.47776695177302, 152.40959258449735,
   156.3608363030788, 160.3311282166309, 164.32011226319517, 168.32744544842765,
   172.35279713916279, 176.39584840699735, 180.45629141754378, 184.53382886144948,
   188.6281734236716, 192.7390472878449, 196.86618167289001, 201.00931639928152,
   205.1681994826412, 209.34258675253685, 213.53224149456327, 217.73693411395422,
   221.95644181913033, 226.1905483237276, 230.43904356577696, 234.70172344281826,
   238.97838956183432, 243.26884900298271, 247.57291409618688, 251.89040220972319,
   256.22113555000954, 260.56494097186322, 264.92164979855278, 269.29109765101981,
   273.67312428569369, 278.06757344036612, 282.4742926876304, 286.89313329542699,
   291.32395009427029, 295.76660135076065, 300.22094864701415, 304.68685676566872,
   309.1641935801469, 313.65282994987905, 318.1526396202093, 322.66349912672615,
   327.1852877037752, 331.71788719692847, 336.26118197919845, 340.81505887079902,
   345.37940706226686, 349.95411804077025, 354.53908551944079, 359.1342053695754,
   363.73937555556347, 368.35449607240474, 372.97946888568902, 377.61419787391867,
   382.25858877306001, 386.91254912321756, 391.57598821732961, 396.24881705179155,
   400.93094827891576, 405.6222961611449, 410.32277652693733, 415.03230672824964,
   419.75080559954472, 424.47819341825709, 429.21439186665157, 433.95932399501481,
   438.71291418612117, 443.47508812091894, 448.24577274538461, 453.02489623849613,
   457.81238798127816, 462.60817852687489, 467.4121995716082, 472.22438392698058,
   477.04466549258564, 481.87297922988796, 486.70926113683936, 491.55344822329801,
   496.40547848721764, 501.26529089157924, 506.13282534203483, 511.00802266523596,
   515.89082458782241, 520.78117371604412, 525.67901351599517, 530.58428829443358,
   535.49694318016952, 540.41692410599762, 545.34417779115483, 550.27865172428551,
   555.22029414689484, 560.16905403727310, 565.12488109487424, 570.08772572513419,
   575.05753902471020, 580.03427276713080, 585.01787938883899, 590.00831197561786,
   595.00552424938201, 600.00947055532743, 605.02010584942377, 610.03738568623862,
   615.06126620708494, 620.09170412847732, 625.12865673089095, 630.17208184781020,
   635.22193785505965, 640.27818366040810, 645.34077869343503, 650.40968289565524,
   655.48485671088906, 660.56626107587351, 665.65385741110595, 670.74760761191271,
   675.84747403973688, 680.95341951363753, 686.06540730199413, 691.18340111441080,
   696.30736509381404, 701.43726380873704, 706.57306224578736, 711.71472580228999,
   716.86222027910355, 722.01551187360133, 727.17456717281584, 732.33935314673920,
   737.50983714177733, 742.68598687435122, 747.86777042464337, 753.05515623048404,
   758.24811308137441, 763.44661011264009, 768.65061679971711, 773.86010295255835,
   779.07503871016729, 784.29539453524569, 789.52114120895885, 794.75224982581346,
   799.98869178864345, 805.23043880370301, 810.47746287586358, 815.72973630391016,
   820.98723167593789, 826.24992186484292, 831.51778002390620, 836.79077958246978,
   842.06889424170038, 847.35209797043842, 852.64036500113298, 857.93366982585735
   ]"

text \<open>A read \<^verbatim>\<open>logfactorial[i]\<close>: outside the 200 entries it is a fault.\<close>

definition logfactorial_at :: "size_t \<Rightarrow> fault + double" where
  "logfactorial_at i =
     (if unat i < 200 then Inr (Fin (logfactorial ! unat i)) else Inl IndexOutOfBounds)"

text \<open>
  The guard \<^verbatim>\<open>z < 201 && z == (size_t)z\<close> of the lookup branch; \<^verbatim>\<open>&&\<close> evaluates
  the cast only when \<^verbatim>\<open>z < 201\<close> holds.
\<close>

definition lgamma_lookup_guard :: "double \<Rightarrow> fault + bool" where
  "lgamma_lookup_guard z =
     (if z < Fin 201 then
        (case size_t_of_double z of
           Inl e \<Rightarrow> Inl e
         | Inr n \<Rightarrow> Inr (feq z (double_of_size_t n)))
      else Inr False)"

text \<open>The index \<^verbatim>\<open>(size_t)z - 1\<close> of the lookup branch, in unsigned 64-bit arithmetic.\<close>

definition lgamma_lookup_index :: "double \<Rightarrow> fault + size_t" where
  "lgamma_lookup_index z =
     (case size_t_of_double z of Inl e \<Rightarrow> Inl e | Inr n \<Rightarrow> Inr (n - 1))"

text \<open>The branches of \<^verbatim>\<open>pgm_lgamma\<close> after the lookup: \<^verbatim>\<open>else if (z > 12) ... else ...\<close>.\<close>

definition pgm_lgamma_approx :: "double \<Rightarrow> double" where
  "pgm_lgamma_approx z =
    (if z > Fin 12 then
       (let a1 = Fin 0.08333333333333333;
            a2 = Fin 0.002777777777777778;
            a3 = Fin 0.0007936507936507937;
            z2 = z * z;
            out = (z - Fin 0.5) * c_log z - z + Fin PGM_LS2PI;
            out = out + (a1 / z - a2 / (z2 * z) + a3 / (z2 * z2 * z))
        in out)
     else if z \<ge> Fin 4 then
       (let p0 = Fin (- 212159.572323);
            p1 = Fin 230661.510616;
            p2 = Fin 27464.7644705;
            p3 = Fin (- 40262.1119975);
            p4 = Fin (- 2296.60729780);
            q0 = Fin (- 116328.495004);
            q1 = Fin (- 146025.937511);
            q2 = Fin (- 24235.7409629);
            q3 = Fin (- 570.691009324)
        in ((((p4 * z + p3) * z + p2) * z + p1) * z + p0) /
           ((((z + q3) * z + q2) * z + q1) * z + q0))
     else if z > Fin 1.5 then
       (let p0 = Fin (- 78.3359299449);
            p1 = Fin (- 142.046296688);
            p2 = Fin 137.519416416;
            p3 = Fin 78.6994924154;
            p4 = Fin 4.16438922228;
            q0 = Fin 47.0668766060;
            q1 = Fin 313.399215894;
            q2 = Fin 263.505074721;
            q3 = Fin 43.3400022514
        in (z - Fin 2) * ((((p4 * z + p3) * z + p2) * z + p1) * z + p0) /
                         ((((z + q3) * z + q2) * z + q1) * z + q0))
     else
       (let p0 = Fin (- 2.66685511495);
            p1 = Fin (- 24.4387534237);
            p2 = Fin (- 21.9698958928);
            p3 = Fin 11.1667541262;
            p4 = Fin 3.13060547623;
            q0 = Fin 0.607771387771;
            q1 = Fin 11.9400905721;
            q2 = Fin 31.4690115749;
            q3 = Fin 15.2346874070
        in if z \<ge> Fin 0.5 then
             (z - Fin 1) * ((((p4 * z + p3) * z + p2) * z + p1) * z + p0) /
                           ((((z + q3) * z + q2) * z + q1) * z + q0)
           else if z > Fin DBL_EPSILON then
             (let x = z + Fin 1
              in z * ((((p4 * x + p3) * x + p2) * x + p1) * x + p0) /
                     ((((x + q3) * x + q2) * x + q1) * x + q0) - c_log z)
           else if z > Fin DBL_MIN then - c_log z
           else Fin PGM_MAX_EXP))"

definition pgm_lgamma :: "double \<Rightarrow> fault + double" where
  "pgm_lgamma z =
     (case lgamma_lookup_guard z of
        Inl e \<Rightarrow> Inl e
      | Inr True \<Rightarrow>
          (case lgamma_lookup_index z of Inl e \<Rightarrow> Inl e | Inr i \<Rightarrow> logfactorial_at i)
      | Inr False \<Rightarrow> Inr (pgm_lgamma_approx z))"


section \<open>The left-truncated gamma sampler\<close>

text \<open>
  The generator \<^verbatim>\<open>bitgen_t\<close> and its two primitives belong to NumPy. The sampler only
  draws from it, so the generator is taken as a parameter: the values its successive
  standard-exponential and standard-uniform draws return (any two sequences of finite
  values), and how many of each have been drawn so far. A draw returns the next value of
  its sequence and advances that sequence's position by one.
\<close>

record bitgen =
  exp_draws :: "nat \<Rightarrow> real"
  unif_draws :: "nat \<Rightarrow> real"
  exp_pos :: nat
  unif_pos :: nat

definition random_standard_exponential :: "bitgen \<Rightarrow> double \<times> bitgen" where
  "random_standard_exponential g = (Fin (exp_draws g (exp_pos g)), g\<lparr>exp_pos := Suc (exp_pos g)\<rparr>)"

definition random_standard_uniform :: "bitgen \<Rightarrow> double \<times> bitgen" where
  "random_standard_uniform g = (Fin (unif_draws g (unif_pos g)), g\<lparr>unif_pos := Suc (unif_pos g)\<rparr>)"

text \<open>
  The two \<^verbatim>\<open>do ... while\<close> loops of \<^verbatim>\<open>random_left_bounded_gamma\<close>. Neither has an
  iteration cap, so each is a partial function: \<open>None\<close> is a loop that never accepts.
  A loop returns the accepted \<^verbatim>\<open>x\<close> and the generator it leaves behind.
\<close>

partial_function (option) left_bounded_loop_a_gt_1 ::
  "double \<Rightarrow> double \<Rightarrow> double \<Rightarrow> double \<Rightarrow> double \<Rightarrow> bitgen \<Rightarrow> (double \<times> bitgen) option" where
  "left_bounded_loop_a_gt_1 amin1 b c0 one_minus_c0 log_m g =
     (case random_standard_exponential g of
        (e, g1) \<Rightarrow>
          (let x = b + e / c0;
               threshold = amin1 * c_log x - x * one_minus_c0 - log_m
           in case random_standard_uniform g1 of
                (u, g2) \<Rightarrow>
                  if c_log1p (- u) > threshold
                  then left_bounded_loop_a_gt_1 amin1 b c0 one_minus_c0 log_m g2
                  else Some (x, g2)))"

partial_function (option) left_bounded_loop_a_lt_1 ::
  "double \<Rightarrow> double \<Rightarrow> bitgen \<Rightarrow> (double \<times> bitgen) option" where
  "left_bounded_loop_a_lt_1 amin1 tb g =
     (case random_standard_exponential g of
        (e, g1) \<Rightarrow>
          (let x = Fin 1 + e / tb
           in case random_standard_uniform g1 of
                (u, g2) \<Rightarrow>
                  if c_log1p (- u) > amin1 * c_log x
                  then left_bounded_loop_a_lt_1 amin1 tb g2
                  else Some (x, g2)))"

definition random_left_bounded_gamma ::
  "bitgen \<Rightarrow> double \<Rightarrow> double \<Rightarrow> double \<Rightarrow> (double \<times> bitgen) option" where
  "random_left_bounded_gamma bitgen_state a b t =
     (if a > Fin 1 then
        (let b = t * b;
             amin1 = a - Fin 1;
             bmina = b - a;
             c0 = Fin 0.5 * (bmina + c_sqrt ((bmina * bmina) + Fin 4 * b)) / b;
             one_minus_c0 = Fin 1 - c0;
             log_m = amin1 * (c_log (amin1 / one_minus_c0) - Fin 1)
         in case left_bounded_loop_a_gt_1 amin1 b c0 one_minus_c0 log_m bitgen_state of
              None \<Rightarrow> None
            | Some (x, g) \<Rightarrow> Some (t * (x / b), g))
      else if feq a (Fin 1) then
        (case random_standard_exponential bitgen_state of
           (e, g) \<Rightarrow> Some (t + e / b, g))
      else
        (let amin1 = a - Fin 1;
             tb = t * b
         in case left_bounded_loop_a_lt_1 amin1 tb bitgen_state of
              None \<Rightarrow> None
            | Some (x, g) \<Rightarrow> Some (t * x, g)))"

text \<open>
  A generator whose every standard-exponential draw is \<open>e\<close> and every standard-uniform
  draw is \<open>u\<close>, with nothing drawn yet: the concrete generator of the examples below.
\<close>

definition constant_bitgen :: "real \<Rightarrow> real \<Rightarrow> bitgen" where
  "constant_bitgen e u = \<lparr>exp_draws = (\<lambda>_. e), unif_draws = (\<lambda>_. u), exp_pos = 0, unif_pos = 0\<rparr>"

section \<open>The continued fractions\<close>

text \<open>
  Both evaluators run the modified Lentz iteration on the variables \<^verbatim>\<open>b\<close>, \<^verbatim>\<open>c\<close>,
  \<^verbatim>\<open>d\<close> and \<^verbatim>\<open>f\<close>; \<^verbatim>\<open>a\<close> and \<^verbatim>\<open>delta\<close> are assigned in every pass before they
  are read. One pass of a loop body maps the four variables to their new values and to
  the \<^verbatim>\<open>delta\<close> of that pass.
\<close>

record lentz =
  lentz_b :: double
  lentz_c :: double
  lentz_d :: double
  lentz_f :: double

text \<open>
  The initialisation \<^verbatim>\<open>f = a / b, c = a / DBL_MIN, d = 1 / b\<close> of both loops, and their
  exit test \<^verbatim>\<open>fabs(delta - 1) < PGM_CONFLUENT_EPSILON\<close>.
\<close>

definition lentz_init :: "double \<Rightarrow> double \<Rightarrow> lentz" where
  "lentz_init a b =
     \<lparr>lentz_b = b, lentz_c = a / Fin DBL_MIN, lentz_d = Fin 1 / b, lentz_f = a / b\<rparr>"

definition lentz_converged :: "double \<Rightarrow> bool" where
  "lentz_converged delta \<longleftrightarrow> c_fabs (delta - Fin 1) < Fin PGM_CONFLUENT_EPSILON"

definition x_smaller_body :: "double \<Rightarrow> double \<Rightarrow> size_t \<Rightarrow> lentz \<Rightarrow> lentz \<times> double" where
  "x_smaller_body r s n st =
     (let a = (if n AND 1 \<noteq> 0 then s * double_of_size_t (n - 1) else r - s * double_of_size_t n);
          b = lentz_b st + Fin 1;
          c = b + a / lentz_c st;
          c = (if c < Fin DBL_MIN then Fin DBL_MIN else c);
          d = a * lentz_d st + b;
          d = (if d < Fin DBL_MIN then Fin DBL_MIN else d);
          d = Fin 1 / d;
          delta = c * d;
          f = lentz_f st * delta
      in (\<lparr>lentz_b = b, lentz_c = c, lentz_d = d, lentz_f = f\<rparr>, delta))"

function x_smaller_loop :: "double \<Rightarrow> double \<Rightarrow> size_t \<Rightarrow> lentz \<Rightarrow> double" where
  "x_smaller_loop r s n st =
     (if n < 100 then
        (case x_smaller_body r s n st of
           (st', delta) \<Rightarrow>
             if lentz_converged delta then lentz_f st'
             else x_smaller_loop r s (n + 1) st')
      else lentz_f st)"
  by pat_completeness auto
termination
proof (relation "measure (\<lambda>(r, s, n, st). 100 - unat n)")
  fix n :: size_t and r s :: double and st st' :: lentz
  assume lt: "n < 100"
  have "unat (i + 1) = Suc (unat i)" if "i < m" for i m :: size_t
    using that by unat_arith
  from this [OF lt] have "unat (n + 1) = Suc (unat n)" .
  moreover from lt have "unat n < 100"
    by (simp add: word_less_nat_alt)
  ultimately have "100 - unat (n + 1) < 100 - unat n"
    by simp
  then show "((r, s, n + 1, st'), (r, s, n, st)) \<in> measure (\<lambda>(r, s, n, st). 100 - unat n)"
    by simp
qed simp

definition confluent_x_smaller :: "double \<Rightarrow> double \<Rightarrow> double" where
  "confluent_x_smaller p x =
     (let a = Fin 1;
          b = p;
          r = - (p - Fin 1) * x;
          s = Fin 0.5 * x
      in x_smaller_loop r s 2 (lentz_init a b))"

definition p_smaller_body :: "double \<Rightarrow> size_t \<Rightarrow> lentz \<Rightarrow> lentz \<times> double" where
  "p_smaller_body p n st =
     (let a = double_of_size_t n * (p - double_of_size_t n);
          b = lentz_b st + Fin 2;
          c = b + a / lentz_c st;
          c = (if c < Fin DBL_MIN then Fin DBL_MIN else c);
          d = a * lentz_d st + b;
          d = (if d < Fin DBL_MIN then Fin DBL_MIN else d);
          d = Fin 1 / d;
          delta = c * d;
          f = lentz_f st * delta
      in (\<lparr>lentz_b = b, lentz_c = c, lentz_d = d, lentz_f = f\<rparr>, delta))"

function p_smaller_loop :: "double \<Rightarrow> size_t \<Rightarrow> lentz \<Rightarrow> double" where
  "p_smaller_loop p n st =
     (if n < 100 then
        (case p_smaller_body p n st of
           (st', delta) \<Rightarrow>
             if lentz_converged delta then lentz_f st'
             else p_smaller_loop p (n + 1) st')
      else lentz_f st)"
  by pat_completeness auto
termination
proof (relation "measure (\<lambda>(p, n, st). 100 - unat n)")
  fix n :: size_t and p :: double and st st' :: lentz
  assume lt: "n < 100"
  have "unat (i + 1) = Suc (unat i)" if "i < m" for i m :: size_t
    using that by unat_arith
  from this [OF lt] have "unat (n + 1) = Suc (unat n)" .
  moreover from lt have "unat n < 100"
    by (simp add: word_less_nat_alt)
  ultimately have "100 - unat (n + 1) < 100 - unat n"
    by simp
  then show "((p, n + 1, st'), (p, n, st)) \<in> measure (\<lambda>(p, n, st). 100 - unat n)"
    by simp
qed simp

definition confluent_p_smaller :: "double \<Rightarrow> double \<Rightarrow> double" where
  "confluent_p_smaller p x =
     (let a = Fin 1;
          b = x - p + Fin 1
      in p_smaller_loop p 1 (lentz_init a b))"

text \<open>
  To speak of the number of passes a loop makes: the variables after \<open>k\<close> passes of a
  loop body that starts with counter \<open>n\<close> (the exit test left aside), the \<^verbatim>\<open>delta\<close> that
  pass \<open>j + 1\<close> computes, and what it means for a loop with room for \<open>cap\<close> passes to stop
  after exactly \<open>k\<close> of them: no earlier pass met the exit test, and if \<open>k\<close> is short of
  the cap then pass \<open>k\<close> met it.
\<close>

fun lentz_passes :: "(size_t \<Rightarrow> lentz \<Rightarrow> lentz \<times> double) \<Rightarrow> size_t \<Rightarrow> nat \<Rightarrow> lentz \<Rightarrow> lentz" where
  "lentz_passes body n 0 st = st"
| "lentz_passes body n (Suc k) st = lentz_passes body (n + 1) k (fst (body n st))"

definition lentz_pass_delta ::
  "(size_t \<Rightarrow> lentz \<Rightarrow> lentz \<times> double) \<Rightarrow> size_t \<Rightarrow> nat \<Rightarrow> lentz \<Rightarrow> double" where
  "lentz_pass_delta body n j st = snd (body (n + word_of_nat j) (lentz_passes body n j st))"

definition lentz_stops_after ::
  "(size_t \<Rightarrow> lentz \<Rightarrow> lentz \<times> double) \<Rightarrow> size_t \<Rightarrow> lentz \<Rightarrow> nat \<Rightarrow> nat \<Rightarrow> bool" where
  "lentz_stops_after body n st cap k \<longleftrightarrow>
     1 \<le> k \<and> k \<le> cap \<and>
     (\<forall>j < k - 1. \<not> lentz_converged (lentz_pass_delta body n j st)) \<and>
     (k < cap \<longrightarrow> lentz_converged (lentz_pass_delta body n (k - 1) st))"

section \<open>The upper incomplete gamma function\<close>

text \<open>
  The two terminating series of the normalized fast paths:
  \<^verbatim>\<open>for (k = sum = r = 1; k < p_int; k++) sum += (r *= x / k);\<close> and
  \<^verbatim>\<open>for (k = r = 1, sum = 0; k < p_int + 1; k++) sum += (r *= x / (k - 0.5));\<close>.
\<close>

function gammaq_int_series :: "double \<Rightarrow> size_t \<Rightarrow> size_t \<Rightarrow> double \<Rightarrow> double \<Rightarrow> double" where
  "gammaq_int_series x p_int k sm r =
     (if k < p_int then
        (let r = r * (x / double_of_size_t k);
             sm = sm + r
         in gammaq_int_series x p_int (k + 1) sm r)
      else sm)"
  by pat_completeness auto
termination
proof (relation "measure (\<lambda>(x, p_int, k, sm, r). unat p_int - unat k)")
  fix k p_int :: size_t and x sm sm' r r' :: double
  assume lt: "k < p_int"
  then have "unat (k + 1) = Suc (unat k)"
    by unat_arith
  moreover from lt have "unat k < unat p_int"
    by (simp add: word_less_nat_alt)
  ultimately have "unat p_int - unat (k + 1) < unat p_int - unat k"
    by simp
  then show "((x, p_int, k + 1, sm', r'), (x, p_int, k, sm, r))
      \<in> measure (\<lambda>(x, p_int, k, sm, r). unat p_int - unat k)"
    by simp
qed simp

function gammaq_half_series :: "double \<Rightarrow> size_t \<Rightarrow> size_t \<Rightarrow> double \<Rightarrow> double \<Rightarrow> double" where
  "gammaq_half_series x p_int k sm r =
     (if k < p_int + 1 then
        (let r = r * (x / (double_of_size_t k - Fin 0.5));
             sm = sm + r
         in gammaq_half_series x p_int (k + 1) sm r)
      else sm)"
  by pat_completeness auto
termination
proof (relation "measure (\<lambda>(x, p_int, k, sm, r). unat (p_int + 1) - unat k)")
  fix k p_int :: size_t and x sm sm' r r' :: double
  assume lt: "k < p_int + 1"
  then have "unat (k + 1) = Suc (unat k)"
    by unat_arith
  moreover from lt have "unat k < unat (p_int + 1)"
    by (simp add: word_less_nat_alt)
  ultimately have "unat (p_int + 1) - unat (k + 1) < unat (p_int + 1) - unat k"
    by simp
  then show "((x, p_int, k + 1, sm', r'), (x, p_int, k, sm, r))
      \<in> measure (\<lambda>(x, p_int, k, sm, r). unat (p_int + 1) - unat k)"
    by simp
qed simp

text \<open>
  The unnormalized branches name their overflow guards. \<^verbatim>\<open>exp_lgam\<close> is
  \<^verbatim>\<open>lgam >= PGM_MAX_EXP ? exp(PGM_MAX_EXP) : exp(lgam)\<close>; for \<open>x \<le> p\<close> the variable
  \<^verbatim>\<open>arg\<close> is clamped on both sides before \<^verbatim>\<open>exp(arg)\<close> is called.
\<close>

definition gammaq_exp_lgam :: "double \<Rightarrow> double" where
  "gammaq_exp_lgam lgam =
     (if lgam \<ge> Fin PGM_MAX_EXP then c_exp (Fin PGM_MAX_EXP) else c_exp lgam)"

definition gammaq_arg_x_smaller :: "double \<Rightarrow> double \<Rightarrow> double \<Rightarrow> double" where
  "gammaq_arg_x_smaller p x lgam =
     (let arg = - x + p * c_log x - lgam
      in if arg \<ge> Fin PGM_MAX_EXP then Fin PGM_MAX_EXP
         else if arg \<le> - Fin PGM_MAX_EXP then - Fin PGM_MAX_EXP
         else arg)"


text \<open>The code of \<^verbatim>\<open>pgm_gammaq\<close> from \<^verbatim>\<open>bool x_smaller = p >= x;\<close> to its end.\<close>

definition pgm_gammaq_general :: "double \<Rightarrow> double \<Rightarrow> bool \<Rightarrow> fault + double" where
  "pgm_gammaq_general p x normalized =
     (let x_smaller = p \<ge> x;
          f = (if x_smaller then confluent_x_smaller p x else confluent_p_smaller p x)
      in if normalized then
           (case pgm_lgamma p of
              Inl e \<Rightarrow> Inl e
            | Inr lgam \<Rightarrow>
                (let out = f * c_exp (- x + p * c_log x - lgam)
                 in Inr (if x_smaller then Fin 1 - out else out)))
         else if x_smaller then
           (case pgm_lgamma p of
              Inl e \<Rightarrow> Inl e
            | Inr lgam \<Rightarrow>
                (let exp_lgam = gammaq_exp_lgam lgam;
                     arg = gammaq_arg_x_smaller p x lgam
                 in Inr ((Fin 1 - f * c_exp arg) * exp_lgam)))
         else
           (let arg = - x + p * c_log x
            in Inr (f * (if arg \<ge> Fin PGM_MAX_EXP then c_exp (Fin PGM_MAX_EXP) else c_exp arg))))"

definition pgm_gammaq :: "double \<Rightarrow> double \<Rightarrow> bool \<Rightarrow> fault + double" where
  "pgm_gammaq p x normalized =
     (if normalized then
        (case size_t_of_double p of
           Inl e \<Rightarrow> Inl e
         | Inr p_int \<Rightarrow>
             if feq p (double_of_size_t p_int) \<and> p < Fin 30 then
               Inr (c_exp (- x) * gammaq_int_series x p_int 1 (Fin 1) (Fin 1))
             else if feq p (double_of_size_t p_int + Fin 0.5) \<and> p < Fin 30 then
               (let one_sqrtpi = Fin 0.5641895835477563;
                    sqrt_x = c_sqrt x;
                    sm = gammaq_half_series x p_int 1 (Fin 0) (Fin 1)
                in Inr (pgm_erfc sqrt_x + c_exp (- x) * one_sqrtpi * sm / sqrt_x))
             else pgm_gammaq_general p x normalized)
      else pgm_gammaq_general p x normalized)"


section \<open>Basic facts about the arithmetic\<close>

lemma Fin_minus [simp]: "Fin x - Fin y = Fin (x - y)"
  by (simp add: minus_double_def)

lemma Fin_divide_nz: "d \<noteq> 0 \<Longrightarrow> Fin n / Fin d = Fin (n / d)"
  by simp

section \<open>Properties of the log-gamma lookup\<close>

lemma size_t_of_double_nat:
  "n < 2 ^ 64 \<Longrightarrow> size_t_of_double (Fin (real n)) = Inr (word_of_nat n)"
  by simp

lemma double_of_size_t_nat:
  "n < 2 ^ 64 \<Longrightarrow> double_of_size_t (word_of_nat n) = Fin (real n)"
  by (simp add: double_of_size_t_def unat_of_nat)

lemma length_logfactorial: "length logfactorial = 200"
  by (simp add: logfactorial_def)

lemma lookup_index_nat:
  assumes "1 \<le> n" "n \<le> 200"
  shows "lgamma_lookup_index (Fin (real n)) = Inr (word_of_nat (n - 1))"
    and "unat (word_of_nat (n - 1) :: size_t) = n - 1"
proof -
  from assms have "n < 2 ^ 64" by simp
  then show "lgamma_lookup_index (Fin (real n)) = Inr (word_of_nat (n - 1))"
    using assms by (simp add: lgamma_lookup_index_def of_nat_diff)
  from assms have "n - 1 < 2 ^ 64" by simp
  then show "unat (word_of_nat (n - 1) :: size_t) = n - 1"
    by (simp add: unat_of_nat)
qed

text \<open>
  Claim C5. For every integer \<open>n\<close> with \<open>1 \<le> n \<le> 200\<close>, the guard of the lookup branch
  of \<^verbatim>\<open>pgm_lgamma\<close> holds at \<open>n\<close>, so no approximation branch is reached, and the
  function returns the table entry \<^verbatim>\<open>logfactorial[n - 1]\<close>.
\<close>

theorem pgm_lgamma_lookup:
  assumes "1 \<le> n" and "n \<le> 200"
  shows "lgamma_lookup_guard (Fin (real n)) = Inr True \<and>
         pgm_lgamma (Fin (real n)) = Inr (Fin (logfactorial ! (n - 1)))"
proof -
  from assms have n: "n < 2 ^ 64" by simp
  have g: "lgamma_lookup_guard (Fin (real n)) = Inr True"
    using assms n by (simp add: lgamma_lookup_guard_def double_of_size_t_nat)
  show ?thesis
    using assms g lookup_index_nat [OF assms]
    by (simp add: pgm_lgamma_def logfactorial_at_def)
qed

theorem pgm_lgamma_lookup_witness:
  "pgm_lgamma (Fin 5) = Inr (Fin 3.1780538303479458)"
  using pgm_lgamma_lookup [of 5] by (simp add: logfactorial_def)

lemma guard_true_is_small_nat:
  assumes pos: "Fin 0 < z" and g: "lgamma_lookup_guard z = Inr True"
  shows "\<exists>n. 1 \<le> n \<and> n \<le> 200 \<and> z = Fin (real n)"
proof (cases z)
  case (Fin r)
  from g Fin have lt: "r < 201"
    by (auto simp: lgamma_lookup_guard_def split: if_splits)
  from pos Fin have r0: "0 < r" by simp
  define k where "k = unat (word_of_nat (nat \<lfloor>r\<rfloor>) :: size_t)"
  from g Fin lt have "r = real k"
    by (auto simp: lgamma_lookup_guard_def double_of_size_t_def k_def split: if_splits)
  with lt r0 have "1 \<le> k \<and> k \<le> 200 \<and> z = Fin (real k)"
    using Fin by auto
  then show ?thesis by blast
next
  case PInf
  with g show ?thesis by (simp add: lgamma_lookup_guard_def)
next
  case NInf
  with g show ?thesis by (simp add: lgamma_lookup_guard_def)
next
  case NaN
  with g show ?thesis by (simp add: lgamma_lookup_guard_def)
qed

text \<open>
  Claim C10. When \<open>z > 0\<close> and the guard \<^verbatim>\<open>z < 201 && z == (size_t)z\<close> of the lookup
  branch holds, \<open>z\<close> is an integer \<open>n\<close> between 1 and 200 and the index \<^verbatim>\<open>(size_t)z - 1\<close>
  is \<open>n - 1\<close>, inside the 200 entries of \<^verbatim>\<open>logfactorial\<close>. The guard alone does not
  exclude \<open>z = 0\<close>: there it holds, the index wraps around to \<open>2\<^sup>6\<^sup>4 - 1\<close>, and the read
  is outside the table.
\<close>

theorem lgamma_lookup_in_bounds:
  "(Fin 0 < z \<and> lgamma_lookup_guard z = Inr True \<longrightarrow>
      (\<exists>n. 1 \<le> n \<and> n \<le> 200 \<and> z = Fin (real n) \<and>
           lgamma_lookup_index z = Inr (word_of_nat (n - 1)) \<and>
           unat (word_of_nat (n - 1) :: size_t) = n - 1 \<and>
           n - 1 < length logfactorial)) \<and>
   lgamma_lookup_guard (Fin 0) = Inr True \<and>
   lgamma_lookup_index (Fin 0) = Inr (- 1) \<and>
   length logfactorial \<le> unat (- 1 :: size_t) \<and>
   pgm_lgamma (Fin 0) = Inl IndexOutOfBounds"
proof -
  have in_bounds: "\<exists>n. 1 \<le> n \<and> n \<le> 200 \<and> z = Fin (real n) \<and>
           lgamma_lookup_index z = Inr (word_of_nat (n - 1)) \<and>
           unat (word_of_nat (n - 1) :: size_t) = n - 1 \<and>
           n - 1 < length logfactorial"
    if "Fin 0 < z" and "lgamma_lookup_guard z = Inr True"
  proof -
    from guard_true_is_small_nat [OF that]
    obtain n where n: "1 \<le> n" "n \<le> 200" "z = Fin (real n)" by blast
    with lookup_index_nat [of n] length_logfactorial show ?thesis
      by (intro exI [of _ n]) simp
  qed
  have g0: "lgamma_lookup_guard (Fin 0) = Inr True"
    by (simp add: lgamma_lookup_guard_def double_of_size_t_def)
  have i0: "lgamma_lookup_index (Fin 0) = Inr (- 1)"
    by (simp add: lgamma_lookup_index_def)
  have big: "length logfactorial \<le> unat (- 1 :: size_t)"
    by (simp add: length_logfactorial unsigned_minus_1_eq_mask mask_eq_exp_minus_1)
  then have "pgm_lgamma (Fin 0) = Inl IndexOutOfBounds"
    by (simp add: pgm_lgamma_def g0 i0 logfactorial_at_def length_logfactorial)
  with in_bounds g0 i0 big show ?thesis by blast
qed

theorem lgamma_lookup_in_bounds_witness:
  "lgamma_lookup_guard (Fin 3) = Inr True \<and>
   (\<exists>n. 1 \<le> n \<and> n \<le> 200 \<and> Fin 3 = Fin (real n) \<and>
        lgamma_lookup_index (Fin 3) = Inr (word_of_nat (n - 1)) \<and>
        unat (word_of_nat (n - 1) :: size_t) = n - 1 \<and>
        n - 1 < length logfactorial)"
proof -
  have g: "lgamma_lookup_guard (Fin 3) = Inr True"
    by (simp add: lgamma_lookup_guard_def double_of_size_t_def)
  have "Fin 0 < Fin 3" by simp
  with g lgamma_lookup_in_bounds [of "Fin 3"] show ?thesis by blast
qed

section \<open>Properties of the incomplete gamma function\<close>

text \<open>
  At \<open>x = 0\<close> two of the three normalized paths return 1: the terminating series for an
  integer \<open>p < 30\<close> adds only zeros to its first term, and on the general path the
  continued fraction is \<open>1 / p\<close> and the factor \<^verbatim>\<open>exp(-x + p * log(x) - lgamma(p))\<close> is
  \<^verbatim>\<open>exp\<close> of minus infinity, that is 0 (for a finite \<^verbatim>\<open>lgamma(p)\<close>).
\<close>

lemma gammaq_int_series_at_zero:
  "k \<noteq> 0 \<Longrightarrow> gammaq_int_series (Fin 0) p_int k (Fin 1) (Fin r) = Fin 1"
proof (induction "Fin 0 :: double" p_int k "Fin 1 :: double" "Fin r" arbitrary: r
    rule: gammaq_int_series.induct)
  case (1 p_int k r)
  show ?case
  proof (cases "k < p_int")
    case True
    have "unat (i + 1) = Suc (unat i)" if "i < m" for i m :: size_t
      using that by unat_arith
    from this [OF True] have k1: "k + 1 \<noteq> 0"
      by (metis Zero_neq_Suc unat_0)
    from "1.prems" have r: "Fin r * (Fin 0 / double_of_size_t k) = Fin 0"
      by (simp add: double_of_size_t_def unsigned_eq_0_iff)
    from "1.hyps" [OF True, of 0] k1 r
    have "gammaq_int_series (Fin 0) p_int (k + 1) (Fin 1) (Fin 0) = Fin 1"
      by simp
    with True r show ?thesis
      by (subst gammaq_int_series.simps) (simp add: Let_def del: gammaq_int_series.simps)
  next
    case False
    then show ?thesis
      by (subst gammaq_int_series.simps) simp
  qed
qed

lemma pgm_gammaq_integer_at_zero:
  assumes "1 \<le> n" and "n < 30"
  shows "pgm_gammaq (Fin (real n)) (Fin 0) True = Inr (Fin 1)"
proof -
  from assms have n: "n < 2 ^ 64" by simp
  have "gammaq_int_series (Fin 0) (word_of_nat n) 1 (Fin 1) (Fin 1) = Fin 1"
    by (rule gammaq_int_series_at_zero) simp
  with assms n show ?thesis
    by (simp add: pgm_gammaq_def double_of_size_t_nat del: gammaq_int_series.simps)
qed

lemma confluent_x_smaller_at_zero:
  assumes "0 < p"
  shows "confluent_x_smaller (Fin p) (Fin 0) = Fin (1 / p)"
proof -
  have "x_smaller_body (Fin 0) (Fin 0) 2 (lentz_init (Fin 1) (Fin p)) =
     (\<lparr>lentz_b = Fin (p + 1), lentz_c = Fin (p + 1), lentz_d = Fin (1 / (p + 1)),
        lentz_f = Fin (1 / p)\<rparr>, Fin 1)"
    using assms
    by (simp add: x_smaller_body_def lentz_init_def double_of_size_t_def DBL_MIN_def Let_def)
  moreover have "lentz_converged (Fin 1)"
    by (simp add: lentz_converged_def PGM_CONFLUENT_EPSILON_def)
  ultimately show ?thesis
    by (simp add: confluent_x_smaller_def Let_def)
qed

lemma pgm_gammaq_general_at_zero:
  assumes "0 < p" and "pgm_lgamma (Fin p) = Inr (Fin l)"
  shows "pgm_gammaq_general (Fin p) (Fin 0) True = Inr (Fin 1)"
  using assms
  by (simp add: pgm_gammaq_general_def confluent_x_smaller_at_zero Let_def minus_double_def)

lemma pgm_erfc_zero: "pgm_erfc (Fin 0) = Fin 1"
  by (subst pgm_erfc.simps) (simp add: PGM_SMALL_VAL_def DBL_EPSILON_def)

text \<open>
  The half-integer fast path does not: its series is a sum of zeros, and the last term
  divides that zero by \<^verbatim>\<open>sqrt_x\<close>, which is zero too.
\<close>

lemma gammaq_half_series_at_zero:
  "gammaq_half_series (Fin 0) p_int k (Fin 0) (Fin r) = Fin 0"
proof (induction "Fin 0 :: double" p_int k "Fin 0 :: double" "Fin r" arbitrary: r
    rule: gammaq_half_series.induct)
  case (1 p_int k r)
  show ?case
  proof (cases "k < p_int + 1")
    case True
    have "real (unat k) \<noteq> 1 / 2"
    proof
      assume "real (unat k) = 1 / 2"
      then have "real (2 * unat k) = real 1" by simp
      then have "2 * unat k = 1" by (simp only: of_nat_eq_iff)
      then show False by presburger
    qed
    then have r: "Fin r * (Fin 0 / (double_of_size_t k - Fin 0.5)) = Fin 0"
      by (simp add: double_of_size_t_def)
    from "1.hyps" [OF True, of 0] r
    have "gammaq_half_series (Fin 0) p_int (k + 1) (Fin 0) (Fin 0) = Fin 0"
      by simp
    with True r show ?thesis
      by (subst gammaq_half_series.simps) (simp add: Let_def del: gammaq_half_series.simps)
  next
    case False
    then show ?thesis
      by (subst gammaq_half_series.simps) simp
  qed
qed


lemma pgm_gammaq_half_integer_at_zero:
  assumes "n < 30"
  shows "pgm_gammaq (Fin (real n + 0.5)) (Fin 0) True = Inr NaN"
proof -
  from assms have n: "n < 2 ^ 64" by simp
  have fl: "nat \<lfloor>real n + 0.5\<rfloor> = n"
    by linarith
  have conv: "size_t_of_double (Fin (real n + 0.5)) = Inr (word_of_nat n)"
    using n by (simp add: fl del: of_nat_add)
  have ne: "\<not> feq (Fin (real n + 0.5)) (double_of_size_t (word_of_nat n))"
    using n by (simp add: double_of_size_t_nat)
  have eq: "feq (Fin (real n + 0.5)) (double_of_size_t (word_of_nat n) + Fin 0.5)"
    using n by (simp add: double_of_size_t_nat)
  have lt: "Fin (real n + 0.5) < Fin 30"
    using assms by simp
  have "pgm_gammaq (Fin (real n + 0.5)) (Fin 0) True =
      Inr (pgm_erfc (c_sqrt (Fin 0)) + c_exp (- Fin 0) * Fin 0.5641895835477563 *
        gammaq_half_series (Fin 0) (word_of_nat n) 1 (Fin 0) (Fin 1) / c_sqrt (Fin 0))"
    by (simp only: pgm_gammaq_def conv sum.case ne eq lt if_True if_False simp_thms Let_def)
  also have "\<dots> = Inr (Fin 1 + Fin 0.5641895835477563 * Fin 0 / Fin 0)"
    by (simp only: gammaq_half_series_at_zero) (simp add: pgm_erfc_zero)
  also have "\<dots> = Inr NaN"
    by simp
  finally show ?thesis .
qed

text \<open>
  Claim C1. The claim is that \<^verbatim>\<open>pgm_gammaq(p, 0, true)\<close> is 1 for every \<open>p > 0\<close>. On the
  half-integer fast path it is not: at \<open>p = 0.5\<close> and \<open>x = 0\<close> the series is empty,
  \<^verbatim>\<open>sqrt_x\<close> is 0, the last term is \<open>0 / 0\<close> and the function returns NaN. The same
  happens at every half-integer \<open>p < 30\<close>, by the lemma above.
\<close>

theorem pgm_gammaq_half_at_zero_is_nan:
  "pgm_gammaq (Fin 0.5) (Fin 0) True = Inr NaN"
proof -
  have s: "gammaq_half_series (Fin 0) 0 1 (Fin 0) (Fin 1) = Fin 0"
    by (subst gammaq_half_series.simps) simp
  show ?thesis
    by (simp add: pgm_gammaq_def double_of_size_t_def s pgm_erfc_zero
        del: gammaq_half_series.simps)
qed

section \<open>Properties of the left-truncated gamma sampler\<close>

lemma loop_a_lt_1_result:
  assumes "left_bounded_loop_a_lt_1 amin1 tb g = Some y"
  shows "exp_pos g < exp_pos (snd y) \<and> unif_pos g < unif_pos (snd y) \<and>
         exp_draws (snd y) = exp_draws g \<and> unif_draws (snd y) = unif_draws g \<and>
         fst y = Fin 1 + Fin (exp_draws g (exp_pos (snd y) - 1)) / tb"
proof (rule left_bounded_loop_a_lt_1.raw_induct
    [where P = "\<lambda>amin1 tb g y. exp_pos g < exp_pos (snd y) \<and> unif_pos g < unif_pos (snd y) \<and>
         exp_draws (snd y) = exp_draws g \<and> unif_draws (snd y) = unif_draws g \<and>
         fst y = Fin 1 + Fin (exp_draws g (exp_pos (snd y) - 1)) / tb", OF _ assms])
  fix loop :: "double \<Rightarrow> double \<Rightarrow> bitgen \<Rightarrow> (double \<times> bitgen) option"
  fix amin1 tb :: double and g :: bitgen and y :: "double \<times> bitgen"
  let ?g2 = "g\<lparr>exp_pos := Suc (exp_pos g), unif_pos := Suc (unif_pos g)\<rparr>"
  let ?x = "Fin 1 + Fin (exp_draws g (exp_pos g)) / tb"
  assume IH: "\<And>amin1 tb g y. loop amin1 tb g = Some y \<Longrightarrow>
         exp_pos g < exp_pos (snd y) \<and> unif_pos g < unif_pos (snd y) \<and>
         exp_draws (snd y) = exp_draws g \<and> unif_draws (snd y) = unif_draws g \<and>
         fst y = Fin 1 + Fin (exp_draws g (exp_pos (snd y) - 1)) / tb"
  assume "(case random_standard_exponential g of
        (e, g1) \<Rightarrow>
          (let x = Fin 1 + e / tb
           in case random_standard_uniform g1 of
                (u, g2) \<Rightarrow>
                  if c_log1p (- u) > amin1 * c_log x
                  then loop amin1 tb g2
                  else Some (x, g2))) = Some y"
  then have "loop amin1 tb ?g2 = Some y \<or> y = (?x, ?g2)"
    by (auto simp: random_standard_exponential_def random_standard_uniform_def Let_def
        split: if_splits)
  then show "exp_pos g < exp_pos (snd y) \<and> unif_pos g < unif_pos (snd y) \<and>
         exp_draws (snd y) = exp_draws g \<and> unif_draws (snd y) = unif_draws g \<and>
         fst y = Fin 1 + Fin (exp_draws g (exp_pos (snd y) - 1)) / tb"
  proof
    assume "loop amin1 tb ?g2 = Some y"
    from IH [OF this] show ?thesis by auto
  next
    assume "y = (?x, ?g2)"
    then show ?thesis by simp
  qed
qed

lemma loop_a_gt_1_result:
  assumes "left_bounded_loop_a_gt_1 amin1 b c0 one_minus_c0 log_m g = Some y"
  shows "exp_pos g < exp_pos (snd y) \<and> unif_pos g < unif_pos (snd y) \<and>
         exp_draws (snd y) = exp_draws g \<and> unif_draws (snd y) = unif_draws g \<and>
         fst y = b + Fin (exp_draws g (exp_pos (snd y) - 1)) / c0"
proof (rule left_bounded_loop_a_gt_1.raw_induct
    [where P = "\<lambda>amin1 b c0 one_minus_c0 log_m g y.
         exp_pos g < exp_pos (snd y) \<and> unif_pos g < unif_pos (snd y) \<and>
         exp_draws (snd y) = exp_draws g \<and> unif_draws (snd y) = unif_draws g \<and>
         fst y = b + Fin (exp_draws g (exp_pos (snd y) - 1)) / c0", OF _ assms])
  fix loop :: "double \<Rightarrow> double \<Rightarrow> double \<Rightarrow> double \<Rightarrow> double \<Rightarrow> bitgen \<Rightarrow> (double \<times> bitgen) option"
  fix amin1 b c0 one_minus_c0 log_m :: double and g :: bitgen and y :: "double \<times> bitgen"
  let ?g2 = "g\<lparr>exp_pos := Suc (exp_pos g), unif_pos := Suc (unif_pos g)\<rparr>"
  let ?x = "b + Fin (exp_draws g (exp_pos g)) / c0"
  assume IH: "\<And>amin1 b c0 one_minus_c0 log_m g y.
         loop amin1 b c0 one_minus_c0 log_m g = Some y \<Longrightarrow>
         exp_pos g < exp_pos (snd y) \<and> unif_pos g < unif_pos (snd y) \<and>
         exp_draws (snd y) = exp_draws g \<and> unif_draws (snd y) = unif_draws g \<and>
         fst y = b + Fin (exp_draws g (exp_pos (snd y) - 1)) / c0"
  assume "(case random_standard_exponential g of
        (e, g1) \<Rightarrow>
          (let x = b + e / c0;
               threshold = amin1 * c_log x - x * one_minus_c0 - log_m
           in case random_standard_uniform g1 of
                (u, g2) \<Rightarrow>
                  if c_log1p (- u) > threshold
                  then loop amin1 b c0 one_minus_c0 log_m g2
                  else Some (x, g2))) = Some y"
  then have "loop amin1 b c0 one_minus_c0 log_m ?g2 = Some y \<or> y = (?x, ?g2)"
    by (auto simp: random_standard_exponential_def random_standard_uniform_def Let_def
        split: if_splits)
  then show "exp_pos g < exp_pos (snd y) \<and> unif_pos g < unif_pos (snd y) \<and>
         exp_draws (snd y) = exp_draws g \<and> unif_draws (snd y) = unif_draws g \<and>
         fst y = b + Fin (exp_draws g (exp_pos (snd y) - 1)) / c0"
  proof
    assume "loop amin1 b c0 one_minus_c0 log_m ?g2 = Some y"
    from IH [OF this] show ?thesis by auto
  next
    assume "y = (?x, ?g2)"
    then show ?thesis by simp
  qed
qed

text \<open>
  Claim C3, as amended. A call of \<^verbatim>\<open>random_left_bounded_gamma\<close> that returns has drawn
  at least one standard exponential. When \<open>a \<noteq> 1\<close> (either rejection loop) it has also
  drawn at least one standard uniform; when \<open>a = 1\<close> it has drawn exactly one exponential
  and no uniform at all.
\<close>

theorem left_bounded_gamma_draws:
  assumes "random_left_bounded_gamma g a b t = Some (y, g')"
  shows "exp_pos g < exp_pos g' \<and>
         (if feq a (Fin 1) then exp_pos g' = Suc (exp_pos g) \<and> unif_pos g' = unif_pos g
          else unif_pos g < unif_pos g')"
proof -
  consider (gt) "a > Fin 1" | (eq) "\<not> a > Fin 1" "feq a (Fin 1)" | (lt) "\<not> a > Fin 1" "\<not> feq a (Fin 1)"
    by blast
  then show ?thesis
  proof cases
    case gt
    then have ne: "\<not> feq a (Fin 1)" by (cases a) auto
    from assms gt obtain amin1 b' c0 omc log_m x where
      "left_bounded_loop_a_gt_1 amin1 b' c0 omc log_m g = Some (x, g')"
      by (auto simp: random_left_bounded_gamma_def Let_def split: option.splits)
    from loop_a_gt_1_result [OF this] ne show ?thesis by simp
  next
    case eq
    with assms show ?thesis
      by (auto simp: random_left_bounded_gamma_def random_standard_exponential_def)
  next
    case lt
    with assms obtain amin1 tb x where
      "left_bounded_loop_a_lt_1 amin1 tb g = Some (x, g')"
      by (auto simp: random_left_bounded_gamma_def Let_def split: option.splits)
    from loop_a_lt_1_result [OF this] lt show ?thesis by simp
  qed
qed

lemma loop_a_lt_1_accept_first:
  "left_bounded_loop_a_lt_1 (Fin (- (1/2))) (Fin 1) (constant_bitgen 0 (1/2)) =
     Some (Fin 1, (constant_bitgen 0 (1/2))\<lparr>exp_pos := 1, unif_pos := 1\<rparr>)"
  by (subst left_bounded_loop_a_lt_1.simps)
     (simp add: random_standard_exponential_def random_standard_uniform_def constant_bitgen_def)

theorem left_bounded_gamma_draws_witness:
  "exp_pos (constant_bitgen 0 (1/2)) < exp_pos ((constant_bitgen 0 (1/2))\<lparr>exp_pos := 1, unif_pos := 1\<rparr>) \<and>
   unif_pos (constant_bitgen 0 (1/2)) < unif_pos ((constant_bitgen 0 (1/2))\<lparr>exp_pos := 1, unif_pos := 1\<rparr>)"
proof -
  have "random_left_bounded_gamma (constant_bitgen 0 (1/2)) (Fin (1/2)) (Fin 1) (Fin 1) =
      Some (Fin 1, (constant_bitgen 0 (1/2))\<lparr>exp_pos := 1, unif_pos := 1\<rparr>)"
    by (simp add: random_left_bounded_gamma_def loop_a_lt_1_accept_first minus_double_def)
  from left_bounded_gamma_draws [OF this] show ?thesis by simp
qed

text \<open>
  The claim as stated fails for \<open>a = 1\<close>: with \<open>a = b = t = 1\<close> the call returns after
  one exponential draw and leaves the position of the uniform draws where it was.
\<close>

theorem left_bounded_gamma_a_eq_1_no_uniform_draw:
  "random_left_bounded_gamma (constant_bitgen 1 (1/2)) (Fin 1) (Fin 1) (Fin 1) =
     Some (Fin 2, (constant_bitgen 1 (1/2))\<lparr>exp_pos := 1\<rparr>) \<and>
   unif_pos ((constant_bitgen 1 (1/2))\<lparr>exp_pos := 1\<rparr>) = unif_pos (constant_bitgen 1 (1/2))"
  by (simp add: random_left_bounded_gamma_def random_standard_exponential_def constant_bitgen_def)

lemma dagpunar_c0_pos:
  fixes a b :: real
  assumes "0 < b"
  shows "0 < 0.5 * ((b - a) + sqrt ((b - a) * (b - a) + 4 * b)) / b"
proof -
  have "\<bar>b - a\<bar> = sqrt ((b - a) * (b - a))"
    by simp
  also have "\<dots> < sqrt ((b - a) * (b - a) + 4 * b)"
    using assms by (intro real_sqrt_less_mono) simp
  finally have "0 < (b - a) + sqrt ((b - a) * (b - a) + 4 * b)"
    by linarith
  with assms show ?thesis by simp
qed

lemma dagpunar_c0_double:
  assumes t: "0 < t" and b: "0 < b"
  shows "\<exists>c0. 0 < c0 \<and>
     Fin 0.5 * ((Fin t * Fin b - Fin a) +
        c_sqrt (((Fin t * Fin b - Fin a) * (Fin t * Fin b - Fin a)) + Fin 4 * (Fin t * Fin b))) /
       (Fin t * Fin b) = Fin c0"
proof -
  from t b have tb: "0 < t * b"
    by simp
  then have "0 \<le> (t * b - a) * (t * b - a) + 4 * (t * b)"
    by simp
  moreover have "t \<noteq> 0" "b \<noteq> 0"
    using t b by simp_all
  ultimately have "Fin 0.5 * ((Fin t * Fin b - Fin a) +
        c_sqrt (((Fin t * Fin b - Fin a) * (Fin t * Fin b - Fin a)) + Fin 4 * (Fin t * Fin b))) /
       (Fin t * Fin b) =
     Fin (0.5 * ((t * b - a) + sqrt ((t * b - a) * (t * b - a) + 4 * (t * b))) / (t * b))"
    by simp
  with dagpunar_c0_pos [OF tb, of a] show ?thesis by blast
qed

lemma left_bounded_gamma_gt_1_loop:
  assumes "a > Fin 1" and "random_left_bounded_gamma g a b t = Some (y, g')"
  shows "\<exists>x omc lm. left_bounded_loop_a_gt_1 (a - Fin 1) (t * b)
            (Fin 0.5 * ((t * b - a) + c_sqrt (((t * b - a) * (t * b - a)) + Fin 4 * (t * b))) / (t * b))
            omc lm g = Some (x, g') \<and>
          y = t * (x / (t * b))"
  using assms unfolding random_left_bounded_gamma_def Let_def
  by (auto split: option.splits)

lemma left_bounded_gamma_lt_1_loop:
  assumes "\<not> a > Fin 1" and "\<not> feq a (Fin 1)"
    and "random_left_bounded_gamma g a b t = Some (y, g')"
  shows "\<exists>x. left_bounded_loop_a_lt_1 (a - Fin 1) (t * b) g = Some (x, g') \<and> y = t * x"
  using assms unfolding random_left_bounded_gamma_def Let_def
  by (auto split: option.splits)

text \<open>
  From the accepted exponential draw to the returned sample the code divides the draw by
  a value that is not negative (\<^verbatim>\<open>c0\<close>, \<^verbatim>\<open>b\<close> or \<^verbatim>\<open>tb\<close>), adds the quotient to
  \<^verbatim>\<open>b\<close>, \<^verbatim>\<open>t\<close> or 1, for \<open>a > 1\<close> divides the sum by \<^verbatim>\<open>b\<close>, and in the two rejection
  regimes multiplies by \<^verbatim>\<open>t\<close>. No step takes its result below 0, the left summand, 1 and
  \<^verbatim>\<open>t\<close> respectively, whatever value the step before it produced: a zero, an infinity
  and a NaN included, every comparison with a NaN being false.
\<close>

lemma quotient_not_negative:
  assumes "0 \<le> e" and "\<not> c < Fin 0"
  shows "\<not> Fin e / c < Fin 0"
proof (cases c)
  case (Fin r)
  with assms have "0 \<le> r" by simp
  with assms(1) have "0 \<le> e / r" by simp
  with Fin assms(1) show ?thesis by (simp add: not_less)
qed (use assms in simp_all)

lemma sum_not_below:
  assumes "\<not> d < Fin 0"
  shows "\<not> Fin s + d < Fin s"
  using assms by (cases d) simp_all

lemma ratio_not_below_one:
  assumes "\<not> b < Fin 0" and "\<not> d < Fin 0"
  shows "\<not> (b + d) / b < Fin 1"
proof (cases b)
  case (Fin r)
  show ?thesis
  proof (cases d)
    case (Fin q)
    with \<open>b = Fin r\<close> assms have "0 \<le> r" and "0 \<le> q"
      by simp_all
    then have "1 \<le> (r + q) / r" if "r \<noteq> 0"
      using that by (simp add: field_simps)
    with \<open>b = Fin r\<close> \<open>d = Fin q\<close> \<open>0 \<le> q\<close> show ?thesis
      by (auto simp: not_less)
  qed (use \<open>b = Fin r\<close> assms in simp_all)
next
  case PInf
  then show ?thesis by (cases d) simp_all
qed (use assms in simp_all)

lemma product_not_below:
  assumes "0 < s" and "\<not> x < Fin 1"
  shows "\<not> Fin s * x < Fin s"
  using assms by (cases x) simp_all

text \<open>
  Claim C4, as amended. For \<open>a, b, t > 0\<close> and nonnegative standard-exponential draws, a
  sample that \<^verbatim>\<open>random_left_bounded_gamma\<close> returns is never less than \<open>t\<close>: the C
  comparison \<^verbatim>\<open>sample < t\<close> is false, in each of the three regimes. The sample need not
  exceed \<open>t\<close>.
\<close>

theorem left_bounded_gamma_not_below_t:
  assumes a: "0 < a" and b: "0 < b" and t: "0 < t"
    and draws: "\<forall>i. 0 \<le> exp_draws g i"
    and ret: "random_left_bounded_gamma g (Fin a) (Fin b) (Fin t) = Some (y, g')"
  shows "\<not> y < Fin t"
proof -
  define e where "e = exp_draws g (exp_pos g' - 1)"
  from draws have e: "0 \<le> e" by (simp add: e_def)
  from b t have "0 \<le> t * b" by simp
  then have tb: "\<not> Fin t * Fin b < Fin 0" by (simp add: not_less)
  consider (gt) "1 < a" | (eq) "a = 1" | (lt) "a < 1"
    by linarith
  then show ?thesis
  proof cases
    case gt
    from dagpunar_c0_double [OF t b, of a] obtain c0 where c0: "0 < c0"
      and c0_eq: "Fin 0.5 * ((Fin t * Fin b - Fin a) +
        c_sqrt (((Fin t * Fin b - Fin a) * (Fin t * Fin b - Fin a)) + Fin 4 * (Fin t * Fin b))) /
       (Fin t * Fin b) = Fin c0"
      by blast
    from gt have "Fin a > Fin 1" by simp
    from left_bounded_gamma_gt_1_loop [OF this ret] obtain x omc lm where
      loop: "left_bounded_loop_a_gt_1 (Fin a - Fin 1) (Fin t * Fin b) (Fin c0) omc lm g = Some (x, g')"
      and y: "y = Fin t * (x / (Fin t * Fin b))"
      unfolding c0_eq by blast
    from loop_a_gt_1_result [OF loop] have x: "x = Fin t * Fin b + Fin e / Fin c0"
      by (simp add: e_def)
    from c0 have "\<not> Fin c0 < Fin 0" by simp
    from quotient_not_negative [OF e this] have "\<not> Fin e / Fin c0 < Fin 0" .
    from ratio_not_below_one [OF tb this]
    have "\<not> (Fin t * Fin b + Fin e / Fin c0) / (Fin t * Fin b) < Fin 1" .
    from product_not_below [OF t this] show ?thesis
      unfolding y x .
  next
    case eq
    with ret have y: "y = Fin t + Fin (exp_draws g (exp_pos g)) / Fin b"
      and "exp_pos g' = Suc (exp_pos g)"
      by (auto simp: random_left_bounded_gamma_def random_standard_exponential_def)
    then have y: "y = Fin t + Fin e / Fin b"
      by (simp add: e_def)
    from b have "\<not> Fin b < Fin 0" by simp
    from sum_not_below [OF quotient_not_negative [OF e this]] show ?thesis
      unfolding y .
  next
    case lt
    then have "\<not> Fin a > Fin 1" and "\<not> feq (Fin a) (Fin 1)" by simp_all
    from left_bounded_gamma_lt_1_loop [OF this ret] obtain x where
      loop: "left_bounded_loop_a_lt_1 (Fin a - Fin 1) (Fin t * Fin b) g = Some (x, g')"
      and y: "y = Fin t * x"
      by blast
    from loop_a_lt_1_result [OF loop] have x: "x = Fin 1 + Fin e / (Fin t * Fin b)"
      by (simp add: e_def)
    from sum_not_below [OF quotient_not_negative [OF e tb]]
    have "\<not> Fin 1 + Fin e / (Fin t * Fin b) < Fin 1" .
    from product_not_below [OF t this] show ?thesis
      unfolding y x .
  qed
qed

theorem left_bounded_gamma_not_below_t_witness:
  "random_left_bounded_gamma (constant_bitgen 1 (1/2)) (Fin 1) (Fin 1) (Fin 1) =
     Some (Fin 2, (constant_bitgen 1 (1/2))\<lparr>exp_pos := 1\<rparr>) \<and>
   \<not> Fin 2 < Fin 1"
proof -
  let ?g = "constant_bitgen 1 (1/2)"
  let ?g' = "?g\<lparr>exp_pos := 1\<rparr>"
  have ret: "random_left_bounded_gamma ?g (Fin 1) (Fin 1) (Fin 1) = Some (Fin 2, ?g')"
    by (simp add: random_left_bounded_gamma_def random_standard_exponential_def
        constant_bitgen_def)
  have draws: "\<forall>i. 0 \<le> exp_draws ?g i"
    by (simp add: constant_bitgen_def)
  from left_bounded_gamma_not_below_t [OF _ _ _ draws ret] ret show ?thesis
    by simp
qed

text \<open>
  The claim as stated fails when an exponential draw is zero, which nonnegativity allows:
  with \<open>a = b = t = 1\<close> and a draw of 0 the sample is \<open>t\<close> itself.
\<close>

theorem left_bounded_gamma_returns_t:
  "random_left_bounded_gamma (constant_bitgen 0 (1/2)) (Fin 1) (Fin 1) (Fin 1) =
     Some (Fin 1, (constant_bitgen 0 (1/2))\<lparr>exp_pos := 1\<rparr>) \<and>
   \<not> Fin 1 < Fin 1 \<and>
   0 \<le> exp_draws (constant_bitgen 0 (1/2)) 0 \<and>
   0 < unif_draws (constant_bitgen 0 (1/2)) 0 \<and> unif_draws (constant_bitgen 0 (1/2)) 0 < 1"
  by (simp add: random_left_bounded_gamma_def random_standard_exponential_def constant_bitgen_def)

section \<open>Properties of the continued fractions\<close>

lemma lentz_pass_delta_0: "lentz_pass_delta body n 0 st = snd (body n st)"
  by (simp add: lentz_pass_delta_def)

lemma lentz_pass_delta_Suc:
  "lentz_pass_delta body n (Suc j) st = lentz_pass_delta body (n + 1) j (fst (body n st))"
  by (simp add: lentz_pass_delta_def add.assoc)

lemma lentz_loop_passes:
  fixes loop :: "size_t \<Rightarrow> lentz \<Rightarrow> double"
  assumes eq: "\<And>n st. loop n st =
     (if n < 100 then
        (case body n st of
           (st', delta) \<Rightarrow> if lentz_converged delta then lentz_f st' else loop (n + 1) st')
      else lentz_f st)"
  shows "unat n + cap = 100 \<Longrightarrow>
     (cap = 0 \<and> loop n st = lentz_f st) \<or>
     (\<exists>k. lentz_stops_after body n st cap k \<and> loop n st = lentz_f (lentz_passes body n k st))"
proof (induction cap arbitrary: n st)
  case 0
  then have "\<not> n < 100"
    by (simp add: word_less_nat_alt)
  then show ?case
    by (subst eq) simp
next
  case (Suc cap)
  then have lt: "n < 100"
    by (simp add: word_less_nat_alt)
  have "unat (i + 1) = Suc (unat i)" if "i < m" for i m :: size_t
    using that by unat_arith
  from this [OF lt] Suc.prems have n1: "unat (n + 1) + cap = 100"
    by simp
  obtain st' delta where body: "body n st = (st', delta)"
    by (cases "body n st")
  show ?case
  proof (cases "lentz_converged delta")
    case True
    then have "loop n st = lentz_f (lentz_passes body n 1 st)"
      using lt body by (subst eq) simp
    moreover have "lentz_stops_after body n st (Suc cap) 1"
      using True body by (simp add: lentz_stops_after_def lentz_pass_delta_0)
    ultimately show ?thesis by blast
  next
    case False
    then have step: "loop n st = loop (n + 1) st'"
      using lt body by (subst eq) simp
    from Suc.IH [OF n1, of st'] show ?thesis
    proof
      assume "cap = 0 \<and> loop (n + 1) st' = lentz_f st'"
      then have "loop n st = lentz_f (lentz_passes body n 1 st)"
        and "lentz_stops_after body n st (Suc cap) 1"
        using step body by (simp_all add: lentz_stops_after_def)
      then show ?thesis by blast
    next
      assume "\<exists>k. lentz_stops_after body (n + 1) st' cap k \<and>
          loop (n + 1) st' = lentz_f (lentz_passes body (n + 1) k st')"
      then obtain k where k: "lentz_stops_after body (n + 1) st' cap k"
        and val: "loop (n + 1) st' = lentz_f (lentz_passes body (n + 1) k st')"
        by blast
      from val step body have "loop n st = lentz_f (lentz_passes body n (Suc k) st)"
        by simp
      moreover have "lentz_stops_after body n st (Suc cap) (Suc k)"
        unfolding lentz_stops_after_def
      proof (intro conjI allI impI)
        show "1 \<le> Suc k" by simp
        show "Suc k \<le> Suc cap"
          using k by (simp add: lentz_stops_after_def)
        show "\<not> lentz_converged (lentz_pass_delta body n j st)" if "j < Suc k - 1" for j
        proof (cases j)
          case 0
          with False body show ?thesis by (simp add: lentz_pass_delta_0)
        next
          case (Suc i)
          with that have "i < k - 1" by simp
          with k have "\<not> lentz_converged (lentz_pass_delta body (n + 1) i st')"
            by (simp add: lentz_stops_after_def)
          with Suc body show ?thesis by (simp add: lentz_pass_delta_Suc)
        qed
        show "lentz_converged (lentz_pass_delta body n (Suc k - 1) st)" if "Suc k < Suc cap"
        proof -
          from k have "1 \<le> k" by (simp add: lentz_stops_after_def)
          then obtain i where i: "k = Suc i" by (cases k) simp_all
          from that k have "lentz_converged (lentz_pass_delta body (n + 1) (k - 1) st')"
            by (simp add: lentz_stops_after_def)
          with i body show ?thesis by (simp add: lentz_pass_delta_Suc)
        qed
      qed
      ultimately show ?thesis by blast
    qed
  qed
qed

lemma x_smaller_first_pass:
  "x_smaller_body (Fin 0) (Fin 0) 2 (lentz_init (Fin 1) (Fin 1)) =
     (\<lparr>lentz_b = Fin 2, lentz_c = Fin 2, lentz_d = Fin (1/2), lentz_f = Fin 1\<rparr>, Fin 1)"
  by (simp add: x_smaller_body_def lentz_init_def double_of_size_t_def DBL_MIN_def Let_def)

lemma p_smaller_first_pass:
  "p_smaller_body (Fin 1) 1 (lentz_init (Fin 1) (Fin 2)) =
     (\<lparr>lentz_b = Fin 4, lentz_c = Fin 4, lentz_d = Fin (1/4), lentz_f = Fin (1/2)\<rparr>, Fin 1)"
  by (simp add: p_smaller_body_def lentz_init_def double_of_size_t_def DBL_MIN_def Let_def)

lemma converged_one: "lentz_converged (Fin 1)"
  by (simp add: lentz_converged_def PGM_CONFLUENT_EPSILON_def)

lemma stops_after_first:
  assumes "lentz_stops_after body n st cap k" and "lentz_converged (snd (body n st))"
  shows "k = 1"
proof (rule ccontr)
  assume "k \<noteq> 1"
  with assms(1) have "0 < k - 1"
    by (simp add: lentz_stops_after_def)
  with assms(1) have "\<not> lentz_converged (lentz_pass_delta body n 0 st)"
    unfolding lentz_stops_after_def by blast
  with assms(2) show False
    by (simp add: lentz_pass_delta_0)
qed

text \<open>
  Claim C6. Each continued-fraction evaluator returns after at most 100 passes of its
  loop: \<^verbatim>\<open>confluent_x_smaller\<close> after some \<open>k \<le> 98\<close> passes (its counter runs from 2),
  \<^verbatim>\<open>confluent_p_smaller\<close> after some \<open>k \<le> 99\<close> (its counter runs from 1). The loop stops
  at the first pass whose \<^verbatim>\<open>delta\<close> meets \<^verbatim>\<open>fabs(delta - 1) < 1e-7\<close>, and otherwise at
  the cap; either way the value returned is \<^verbatim>\<open>f\<close> as the last pass left it, a plain
  double with no failure signalled.
\<close>

theorem confluent_stops_within_cap:
  "(\<exists>k. lentz_stops_after (x_smaller_body (- (p - Fin 1) * x) (Fin 0.5 * x)) 2
          (lentz_init (Fin 1) p) 98 k \<and>
        confluent_x_smaller p x =
          lentz_f (lentz_passes (x_smaller_body (- (p - Fin 1) * x) (Fin 0.5 * x)) 2 k
            (lentz_init (Fin 1) p))) \<and>
   (\<exists>k. lentz_stops_after (p_smaller_body p) 1 (lentz_init (Fin 1) (x - p + Fin 1)) 99 k \<and>
        confluent_p_smaller p x =
          lentz_f (lentz_passes (p_smaller_body p) 1 k (lentz_init (Fin 1) (x - p + Fin 1))))"
proof
  have "unat (2 :: size_t) + 98 = 100" by simp
  from lentz_loop_passes [of "x_smaller_loop r s" "x_smaller_body r s" for r s,
      OF x_smaller_loop.simps this]
  show "\<exists>k. lentz_stops_after (x_smaller_body (- (p - Fin 1) * x) (Fin 0.5 * x)) 2
          (lentz_init (Fin 1) p) 98 k \<and>
        confluent_x_smaller p x =
          lentz_f (lentz_passes (x_smaller_body (- (p - Fin 1) * x) (Fin 0.5 * x)) 2 k
            (lentz_init (Fin 1) p))"
    by (simp add: confluent_x_smaller_def Let_def del: x_smaller_loop.simps)
  have "unat (1 :: size_t) + 99 = 100" by simp
  from lentz_loop_passes [of "p_smaller_loop p" "p_smaller_body p", OF p_smaller_loop.simps this]
  show "\<exists>k. lentz_stops_after (p_smaller_body p) 1 (lentz_init (Fin 1) (x - p + Fin 1)) 99 k \<and>
        confluent_p_smaller p x =
          lentz_f (lentz_passes (p_smaller_body p) 1 k (lentz_init (Fin 1) (x - p + Fin 1)))"
    by (simp add: confluent_p_smaller_def Let_def del: p_smaller_loop.simps)
qed

theorem confluent_stops_within_cap_witness:
  "confluent_x_smaller (Fin 1) (Fin 0) = Fin 1 \<and> confluent_p_smaller (Fin 1) (Fin 2) = Fin (1/2)"
proof -
  from confluent_stops_within_cap [of "Fin 1" "Fin 0"]
  obtain k where k: "lentz_stops_after (x_smaller_body (Fin 0) (Fin 0)) 2 (lentz_init (Fin 1) (Fin 1)) 98 k"
    and val: "confluent_x_smaller (Fin 1) (Fin 0) =
      lentz_f (lentz_passes (x_smaller_body (Fin 0) (Fin 0)) 2 k (lentz_init (Fin 1) (Fin 1)))"
    by auto
  from stops_after_first [OF k] have "k = 1"
    by (simp add: x_smaller_first_pass converged_one)
  with val have x: "confluent_x_smaller (Fin 1) (Fin 0) = Fin 1"
    by (simp add: x_smaller_first_pass)
  from confluent_stops_within_cap [of "Fin 1" "Fin 2"]
  obtain j where j: "lentz_stops_after (p_smaller_body (Fin 1)) 1 (lentz_init (Fin 1) (Fin 2)) 99 j"
    and val': "confluent_p_smaller (Fin 1) (Fin 2) =
      lentz_f (lentz_passes (p_smaller_body (Fin 1)) 1 j (lentz_init (Fin 1) (Fin 2)))"
    by auto
  from stops_after_first [OF j] have "j = 1"
    by (simp add: p_smaller_first_pass converged_one)
  with val' have "confluent_p_smaller (Fin 1) (Fin 2) = Fin (1/2)"
    by (simp add: p_smaller_first_pass)
  with x show ?thesis by simp
qed

section \<open>Properties of the unnormalized incomplete gamma function\<close>











section \<open>Properties of the complementary error function\<close>

lemma horner4_pos:
  fixes z :: real
  assumes "0 \<le> z" "0 \<le> q3" "0 \<le> q2" "0 \<le> q1" "0 < q0"
  shows "q0 \<le> (((z + q3) * z + q2) * z + q1) * z + q0"
    and "0 < (((z + q3) * z + q2) * z + q1) * z + q0"
    and "(((z + q3) * z + q2) * z + q1) * z + q0 \<noteq> 0"
proof -
  have "0 \<le> (z + q3) * z" using assms by simp
  then have "0 \<le> ((z + q3) * z + q2) * z" using assms by simp
  then have *: "0 \<le> (((z + q3) * z + q2) * z + q1) * z" using assms by simp
  then show "q0 \<le> (((z + q3) * z + q2) * z + q1) * z + q0" by simp
  from * assms show "0 < (((z + q3) * z + q2) * z + q1) * z + q0" by linarith
  from * assms show "(((z + q3) * z + q2) * z + q1) * z + q0 \<noteq> 0" by linarith
qed

lemma horner4_bounds:
  fixes z :: real
  assumes "0 \<le> z" "z \<le> 1" "0 \<le> p4" "0 \<le> p3" "0 \<le> p2" "0 \<le> p1" "0 \<le> p0"
  shows "0 \<le> (((p4 * z + p3) * z + p2) * z + p1) * z + p0"
    and "(((p4 * z + p3) * z + p2) * z + p1) * z + p0 \<le> p4 + p3 + p2 + p1 + p0"
proof -
  have a0: "0 \<le> p4 * z" and a1: "p4 * z \<le> p4"
    using assms by (simp_all add: mult_left_le)
  have b0: "0 \<le> (p4 * z + p3) * z" and b1: "(p4 * z + p3) * z \<le> p4 + p3"
    using assms a0 a1 by (simp, intro order_trans [OF mult_left_le]) simp_all
  have c0: "0 \<le> ((p4 * z + p3) * z + p2) * z" and c1: "((p4 * z + p3) * z + p2) * z \<le> p4 + p3 + p2"
    using assms b0 b1 by (simp, intro order_trans [OF mult_left_le]) simp_all
  have d0: "0 \<le> (((p4 * z + p3) * z + p2) * z + p1) * z"
    and d1: "(((p4 * z + p3) * z + p2) * z + p1) * z \<le> p4 + p3 + p2 + p1"
    using assms c0 c1 by (simp, intro order_trans [OF mult_left_le]) simp_all
  from d0 assms show "0 \<le> (((p4 * z + p3) * z + p2) * z + p1) * z + p0" by simp
  from d1 show "(((p4 * z + p3) * z + p2) * z + p1) * z + p0 \<le> p4 + p3 + p2 + p1 + p0" by simp
qed

lemma erfc_branch_1:
  assumes "DBL_EPSILON \<le> y" "y < 0.5"
  shows "pgm_erfc (Fin y) =
    Fin (1 - y * ((((0.185777706184603153 * (y * y) + 3.16112374387056560) * (y * y) +
                    113.864154151050156) * (y * y) + 377.485237685302021) * (y * y) +
                  3209.37758913846947) /
                 ((((y * y + 23.6012909523441209) * (y * y) + 244.024637934444173) * (y * y) +
                   1282.61652607737228) * (y * y) + 2844.23683343917062))"
proof -
  have c: "\<not> y < PGM_SMALL_VAL" "\<not> y < - DBL_EPSILON" "\<not> y < DBL_EPSILON" "y < 0.5"
    using assms by (simp_all add: PGM_SMALL_VAL_def DBL_EPSILON_def)
  have nz: "(((y * y + 23.6012909523441209) * (y * y) + 244.024637934444173) * (y * y) +
                   1282.61652607737228) * (y * y) + 2844.23683343917062 \<noteq> 0"
    by (rule horner4_pos) simp_all
  show ?thesis
    by (subst pgm_erfc.simps)
      (simp only: less_double.simps c if_True if_False Let_def times_double.simps
        plus_double.simps Fin_divide_nz [OF nz] Fin_minus)
qed


lemma erfc_branch_2:
  assumes "0.5 \<le> y" "y < 4"
  shows "pgm_erfc (Fin y) =
    Fin (exp (- y * y) * ((((0.000043187787405 * y + 0.56316961891) * y + 3.0317993362) * y +
                          6.8650184849) * y + 7.3738883116) /
                         ((((y + 5.3542167949) * y + 12.795529509) * y + 15.184908190) * y +
                          7.3739608908))"
proof -
  have c: "\<not> y < PGM_SMALL_VAL" "\<not> y < - DBL_EPSILON" "\<not> y < DBL_EPSILON" "\<not> y < 0.5" "y < 4"
    using assms by (simp_all add: PGM_SMALL_VAL_def DBL_EPSILON_def)
  have nz: "(((y + 5.3542167949) * y + 12.795529509) * y + 15.184908190) * y + 7.3739608908 \<noteq> 0"
    using assms by (intro horner4_pos) simp_all
  show ?thesis
    by (subst pgm_erfc.simps)
      (simp only: less_double.simps c if_True if_False Let_def times_double.simps
        plus_double.simps uminus_double.simps c_exp.simps Fin_divide_nz [OF nz])
qed

lemma erfc_branch_3:
  assumes "4 \<le> y" "y < PGM_BIG_VAL"
  shows "pgm_erfc (Fin y) =
    (if y * DBL_MIN > exp (- (y * y)) * PGM_1_SQRTPI then Fin 0
     else Fin (exp (- (y * y)) *
               (PGM_1_SQRTPI +
                1 / (y * y) *
                  (((- 0.0516882262185 * (1 / (y * y)) + - 0.196068973726) * (1 / (y * y)) +
                    - 0.0425799643553) /
                   ((1 / (y * y) + 0.921452411694) * (1 / (y * y)) + 0.150942070545))) / y))"
proof -
  have c: "\<not> y < PGM_SMALL_VAL" "\<not> y < - DBL_EPSILON" "\<not> y < DBL_EPSILON" "\<not> y < 0.5"
    "\<not> y < 4" "y < PGM_BIG_VAL"
    using assms by (simp_all add: PGM_SMALL_VAL_def DBL_EPSILON_def)
  from assms have y: "y \<noteq> 0" and yy: "y * y \<noteq> 0"
    by simp_all
  from assms have "0 < 1 / (y * y)"
    by simp
  then have "0 < (1 / (y * y) + 0.921452411694) * (1 / (y * y))"
    by (intro mult_pos_pos add_pos_pos) simp_all
  then have "0 < (1 / (y * y) + 0.921452411694) * (1 / (y * y)) + 0.150942070545"
    by (intro add_pos_pos) simp_all
  then have nz: "(1 / (y * y) + 0.921452411694) * (1 / (y * y)) + 0.150942070545 \<noteq> 0"
    by simp
  show ?thesis
    by (subst pgm_erfc.simps)
      (simp only: less_double.simps c if_True if_False Let_def times_double.simps
        plus_double.simps uminus_double.simps c_exp.simps Fin_divide_nz [OF nz]
        Fin_divide_nz [OF y] Fin_divide_nz [OF yy])
qed

lemma erfc_branch_4:
  assumes "PGM_BIG_VAL \<le> y"
  shows "pgm_erfc (Fin y) = Fin 0"
proof -
  have c: "\<not> y < PGM_SMALL_VAL" "\<not> y < - DBL_EPSILON" "\<not> y < DBL_EPSILON" "\<not> y < 0.5"
    "\<not> y < 4" "\<not> y < PGM_BIG_VAL"
    using assms by (simp_all add: PGM_SMALL_VAL_def DBL_EPSILON_def PGM_BIG_VAL_def)
  show ?thesis
    by (subst pgm_erfc.simps) (simp only: less_double.simps c if_True if_False)
qed


lemma exp_minus_36: "exp (- 36 :: real) \<le> 1 / 2 ^ 36"
proof -
  have "(2 :: real) \<le> exp 1"
    using exp_ge_add_one_self [of "1 :: real"] by simp
  then have "(2 :: real) ^ 36 \<le> exp 1 ^ 36"
    by (intro power_mono) simp_all
  also have "\<dots> = exp (36 :: real)"
    using exp_of_nat_mult [of 36 "1 :: real"] by simp
  finally have "1 / exp (36 :: real) \<le> 1 / 2 ^ 36"
    by (intro divide_left_mono) simp_all
  then show ?thesis
    by (simp add: exp_minus inverse_eq_divide)
qed

lemma erfc_tail_value:
  fixes y :: real
  assumes y: "6 \<le> y"
  shows "\<bar>exp (- (y * y)) *
           (PGM_1_SQRTPI +
            1 / (y * y) *
              (((- 0.0516882262185 * (1 / (y * y)) + - 0.196068973726) * (1 / (y * y)) +
                - 0.0425799643553) /
               ((1 / (y * y) + 0.921452411694) * (1 / (y * y)) + 0.150942070545))) / y\<bar>
         \<le> 1 / 10 ^ 9"
proof -
  define z where "z = 1 / (y * y)"
  define t where "t = - 0.0516882262185 * z + - 0.196068973726"
  define N where "N = t * z + - 0.0425799643553"
  define D where "D = (z + 0.921452411694) * z + 0.150942070545"
  define E where "E = exp (- (y * y))"
  from y have yy: "36 \<le> y * y"
    using mult_mono [of 6 y 6 y] by simp
  then have z: "0 < z" "z \<le> 1 / 36"
    by (simp_all add: z_def field_simps)
  have t: "- 0.2 \<le> t" "t \<le> 0"
    using z by (simp_all add: t_def)
  have "- 0.2 * z \<le> t * z"
    using t z by (intro mult_right_mono) simp_all
  moreover have "t * z \<le> 0"
    using t z by (intro mult_nonpos_nonneg) simp_all
  ultimately have N: "- 0.3 \<le> N" "N \<le> 0"
    using z by (simp_all add: N_def)
  have "0 \<le> (z + 0.921452411694) * z"
    using z by simp
  then have D: "0.15 \<le> D"
    by (simp add: D_def)
  then have Dpos: "0 < D"
    by simp
  have r: "- 2 \<le> N / D" "N / D \<le> 0"
    using N D Dpos by (simp_all add: pos_le_divide_eq divide_nonpos_pos)
  have "- 2 * z \<le> z * (N / D)"
    using r z mult_left_mono [of "- 2" "N / D" z] by (simp add: mult.commute)
  moreover have "z * (N / D) \<le> 0"
    using r z by (intro mult_nonneg_nonpos) simp_all
  ultimately have w: "0 \<le> PGM_1_SQRTPI + z * (N / D)" "PGM_1_SQRTPI + z * (N / D) \<le> 1"
    using z by (simp_all add: PGM_1_SQRTPI_def)
  have E: "0 \<le> E" "E \<le> 1 / 2 ^ 36"
  proof -
    show "0 \<le> E" by (simp add: E_def)
    have "E \<le> exp (- 36)"
      unfolding E_def using yy by simp
    with exp_minus_36 show "E \<le> 1 / 2 ^ 36" by simp
  qed
  have "0 \<le> E * (PGM_1_SQRTPI + z * (N / D))"
    using E w by simp
  moreover have "E * (PGM_1_SQRTPI + z * (N / D)) \<le> E * 1"
    using E w by (intro mult_left_mono) simp_all
  moreover have "E * 1 \<le> E * y"
    using E y by (intro mult_left_mono) simp_all
  ultimately have v: "0 \<le> E * (PGM_1_SQRTPI + z * (N / D)) / y"
    "E * (PGM_1_SQRTPI + z * (N / D)) / y \<le> E"
    using y by (simp_all add: pos_divide_le_eq)
  define X where "X = E * (PGM_1_SQRTPI + z * (N / D)) / y"
  from v E(2) have "0 \<le> X" and "X \<le> 1 / 2 ^ 36"
    unfolding X_def by linarith+
  then have "\<bar>X\<bar> \<le> 1 / 10 ^ 9"
    by simp
  then show ?thesis
    by (simp only: X_def E_def N_def t_def D_def z_def)
qed


lemma erfc_tail:
  assumes "- PGM_SMALL_VAL < y"
  shows "\<exists>e. pgm_erfc (Fin y) = Fin e \<and> \<bar>e\<bar> \<le> 1 / 10 ^ 9"
proof (cases "y < PGM_BIG_VAL")
  case True
  from assms have y: "6 \<le> y" "4 \<le> y"
    by (simp_all add: PGM_SMALL_VAL_def)
  from erfc_branch_3 [OF y(2) True] erfc_tail_value [OF y(1)] show ?thesis
    by (cases "y * DBL_MIN > exp (- (y * y)) * PGM_1_SQRTPI") simp_all
next
  case False
  then show ?thesis
    by (simp add: erfc_branch_4)
qed

lemma erfc_near_zero:
  assumes "DBL_EPSILON \<le> y" "y < 0.5"
  shows "\<exists>e. pgm_erfc (Fin y) = Fin e \<and> \<bar>e - 1\<bar> \<le> 2 * y"
proof -
  define z where "z = y * y"
  define N where "N = (((0.185777706184603153 * z + 3.16112374387056560) * z +
      113.864154151050156) * z + 377.485237685302021) * z + 3209.37758913846947"
  define D where "D = (((z + 23.6012909523441209) * z + 244.024637934444173) * z +
      1282.61652607737228) * z + 2844.23683343917062"
  from assms have y: "0 \<le> y" "y \<le> 1"
    by (simp_all add: DBL_EPSILON_def)
  then have z: "0 \<le> z" "z \<le> 1"
    unfolding z_def by (simp_all add: mult_le_one)
  have N: "0 \<le> N" "N \<le> 4000"
  proof -
    show "0 \<le> N"
      unfolding N_def using z by (intro horner4_bounds) simp_all
    have "N \<le> 0.185777706184603153 + 3.16112374387056560 + 113.864154151050156 +
        377.485237685302021 + 3209.37758913846947"
      unfolding N_def using z by (intro horner4_bounds) simp_all
    then show "N \<le> 4000" by simp
  qed
  have "2844.23683343917062 \<le> D"
    unfolding D_def using z by (intro horner4_pos) simp_all
  then have D: "2000 \<le> D"
    by simp
  then have r: "0 \<le> N / D" "N / D \<le> 2"
    using N by (simp_all add: pos_divide_le_eq)
  define w where "w = y * (N / D)"
  have "0 \<le> w"
    unfolding w_def using y r by (intro mult_nonneg_nonneg)
  moreover have "w \<le> y * 2"
    unfolding w_def using y r by (intro mult_left_mono)
  moreover have "1 - y * N / D = 1 - w"
    by (simp add: w_def)
  ultimately have "\<bar>(1 - y * N / D) - 1\<bar> \<le> 2 * y"
    by simp
  moreover have "pgm_erfc (Fin y) = Fin (1 - y * N / D)"
    unfolding N_def D_def z_def by (rule erfc_branch_1 [OF assms])
  ultimately show ?thesis by blast
qed

lemma erfc_finite:
  assumes "DBL_EPSILON \<le> y"
  shows "\<exists>e. pgm_erfc (Fin y) = Fin e"
proof -
  consider "y < 0.5" | "0.5 \<le> y" "y < 4" | "4 \<le> y" "y < PGM_BIG_VAL" | "PGM_BIG_VAL \<le> y"
    by linarith
  then show ?thesis
  proof cases
    case 1
    with erfc_near_zero [OF assms] show ?thesis by blast
  next
    case 2
    then show ?thesis by (simp only: erfc_branch_2) blast
  next
    case 3
    then show ?thesis by (simp only: erfc_branch_3 split: if_splits) blast
  next
    case 4
    then show ?thesis by (simp only: erfc_branch_4) blast
  qed
qed

lemma erfc_two: "x < PGM_SMALL_VAL \<Longrightarrow> pgm_erfc (Fin x) = Fin 2"
  by (subst pgm_erfc.simps) simp

lemma erfc_one: "- DBL_EPSILON \<le> x \<Longrightarrow> x < DBL_EPSILON \<Longrightarrow> pgm_erfc (Fin x) = Fin 1"
  by (subst pgm_erfc.simps) (simp add: PGM_SMALL_VAL_def DBL_EPSILON_def)

lemma erfc_reflect:
  "PGM_SMALL_VAL \<le> x \<Longrightarrow> x < - DBL_EPSILON \<Longrightarrow> pgm_erfc (Fin x) = Fin 2 - pgm_erfc (Fin (- x))"
  by (subst pgm_erfc.simps) simp

lemma erfc_sum_nonpos:
  assumes "x < DBL_EPSILON"
  shows "\<exists>r. pgm_erfc (Fin x) + pgm_erfc (Fin (- x)) = Fin r \<and> \<bar>r - 2\<bar> \<le> 1 / 10 ^ 9"
proof -
  consider (deep) "x < PGM_SMALL_VAL" | (refl) "PGM_SMALL_VAL \<le> x" "x < - DBL_EPSILON"
    | (edge) "x = - DBL_EPSILON" | (zero) "- DBL_EPSILON < x" "x < DBL_EPSILON"
    using assms by linarith
  then show ?thesis
  proof cases
    case deep
    then have "- PGM_SMALL_VAL < - x" by simp
    from erfc_tail [OF this] obtain e where "pgm_erfc (Fin (- x)) = Fin e" "\<bar>e\<bar> \<le> 1 / 10 ^ 9"
      by blast
    with erfc_two [OF deep] show ?thesis by simp
  next
    case refl
    then have "DBL_EPSILON \<le> - x" by simp
    from erfc_finite [OF this] obtain e where "pgm_erfc (Fin (- x)) = Fin e"
      by blast
    with erfc_reflect [OF refl] show ?thesis by simp
  next
    case edge
    have "\<exists>e. pgm_erfc (Fin DBL_EPSILON) = Fin e \<and> \<bar>e - 1\<bar> \<le> 2 * DBL_EPSILON"
      by (rule erfc_near_zero) (simp_all add: DBL_EPSILON_def)
    then obtain e where e: "pgm_erfc (Fin DBL_EPSILON) = Fin e" "\<bar>e - 1\<bar> \<le> 2 * DBL_EPSILON"
      by blast
    have "pgm_erfc (Fin (- DBL_EPSILON)) = Fin 1"
      by (rule erfc_one) (simp_all add: DBL_EPSILON_def)
    moreover have "2 * DBL_EPSILON \<le> 1 / 10 ^ 9"
      by (simp add: DBL_EPSILON_def)
    ultimately show ?thesis
      using e edge by simp
  next
    case zero
    then have "pgm_erfc (Fin x) = Fin 1" and "pgm_erfc (Fin (- x)) = Fin 1"
      by (simp_all add: erfc_one)
    then show ?thesis by simp
  qed
qed

text \<open>
  Claim C7. For every finite \<open>x\<close>, \<^verbatim>\<open>pgm_erfc(x) + pgm_erfc(-x)\<close> is finite and within
  \<open>10\<^sup>-\<^sup>9\<close> of 2, hence within relative tolerance \<open>10\<^sup>-\<^sup>9\<close> of it; and for
  \<open>-6.003636680306125 \<le> x < -DBL_EPSILON\<close> the function returns \<^verbatim>\<open>2 - pgm_erfc(-x)\<close>.
  Where the reflection branch applies to \<open>x\<close> or to \<open>-x\<close> the sum is exactly 2; the
  tolerance covers the saturated tails beyond \<open>\<plusminus>6.003636680306125\<close> and the boundary
  \<open>\<bar>x\<bar> = DBL_EPSILON\<close>. Arithmetic is exact here, as everywhere in this model.
\<close>

theorem pgm_erfc_reflection:
  "(\<exists>r. pgm_erfc (Fin x) + pgm_erfc (Fin (- x)) = Fin r \<and> \<bar>r - 2\<bar> \<le> 1 / 10 ^ 9) \<and>
   (PGM_SMALL_VAL \<le> x \<and> x < - DBL_EPSILON \<longrightarrow>
      pgm_erfc (Fin x) = Fin 2 - pgm_erfc (Fin (- x)))"
proof -
  have "\<exists>r. pgm_erfc (Fin x) + pgm_erfc (Fin (- x)) = Fin r \<and> \<bar>r - 2\<bar> \<le> 1 / 10 ^ 9"
  proof (cases "x < DBL_EPSILON")
    case True
    then show ?thesis by (rule erfc_sum_nonpos)
  next
    case False
    then have "- x < DBL_EPSILON"
      by (simp add: DBL_EPSILON_def)
    from erfc_sum_nonpos [OF this] obtain r where
      r: "pgm_erfc (Fin (- x)) + pgm_erfc (Fin x) = Fin r" "\<bar>r - 2\<bar> \<le> 1 / 10 ^ 9"
      by auto
    from erfc_finite [of x] False obtain e where e: "pgm_erfc (Fin x) = Fin e"
      by auto
    from r e obtain e' where "pgm_erfc (Fin (- x)) = Fin e'"
      by (cases "pgm_erfc (Fin (- x))") simp_all
    with r e show ?thesis
      by (simp add: add.commute)
  qed
  with erfc_reflect [of x] show ?thesis by blast
qed

theorem pgm_erfc_reflection_witness:
  "(\<exists>r. pgm_erfc (Fin (- 1)) + pgm_erfc (Fin 1) = Fin r \<and> \<bar>r - 2\<bar> \<le> 1 / 10 ^ 9) \<and>
   pgm_erfc (Fin (- 1)) = Fin 2 - pgm_erfc (Fin 1)"
proof -
  have "PGM_SMALL_VAL \<le> - 1 \<and> - 1 < - DBL_EPSILON"
    by (simp add: PGM_SMALL_VAL_def DBL_EPSILON_def)
  with pgm_erfc_reflection [of "- 1"]
  have "(\<exists>r. pgm_erfc (Fin (- 1)) + pgm_erfc (Fin (- (- 1))) = Fin r \<and> \<bar>r - 2\<bar> \<le> 1 / 10 ^ 9) \<and>
      pgm_erfc (Fin (- 1)) = Fin 2 - pgm_erfc (Fin (- (- 1)))"
    by blast
  then show ?thesis
    unfolding minus_minus .
qed

end
